theory Spec2Isabelle
  imports Main "HOL-Library.Product_Lexorder" "HOL-Library.List_Lexorder"
begin

section \<open>Values, errors and the recipient-by-CC matrix\<close>

text \<open>
  A pandas cell: an integer, a string, a calendar date (year, month, day), a boolean, or
  the null value (NaN / None / NaT).  Cells compare by value.
\<close>

datatype cell = IntC int | StrC string | DateC int int int | BoolC bool | NaN

datatype error =
    KeyError cell
  | ValueError
  | AttributeError
  | NameError
  | IndexError
  | FileNotFoundError string
  | EmptyDataError

text \<open>
  The truth table \<open>merged\<close> of \<open>generate_hccs\<close>: its column labels (CC ids), and one
  row per recipient, each row an association list from column label to value.
\<close>

type_synonym mrow = "(cell \<times> cell) list"

record matrix =
  mcolumns :: "cell list"
  mrows :: "(cell \<times> mrow) list"

text \<open>One row of \<open>df_hier\<close>: the columns \<open>to_zero\<close> and \<open>cc\<close> of the rules file.\<close>

datatype hrule = Rule (rule_to_zero: cell) (rule_cc: cell)

text \<open>Assignment to every entry of a row labelled \<open>c\<close>; a new label is appended.\<close>

definition set_cell :: "'k \<Rightarrow> 'v \<Rightarrow> ('k \<times> 'v) list \<Rightarrow> ('k \<times> 'v) list" where
  "set_cell c v row =
     (if c \<in> fst ` set row then map (\<lambda>(k, x). (k, if k = c then v else x)) row
      else row @ [(c, v)])"

text \<open>
  \<open>merged.loc[merged[row.cc] == True, row.to_zero] = False\<close> on one recipient row: where
  the trigger cell is \<open>True\<close> the suppressed cell becomes \<open>False\<close>; elsewhere the row is
  kept, and a column that did not exist yet is filled with the null value.
\<close>

definition apply_rule_row :: "cell \<Rightarrow> cell \<Rightarrow> mrow \<Rightarrow> mrow" where
  "apply_rule_row t s row =
     (if map_of row t = Some (BoolC True) then set_cell s (BoolC False) row
      else if s \<in> fst ` set row then row
      else row @ [(s, NaN)])"

text \<open>
  The body of the loop over \<open>df_hier.iterrows()\<close>.  \<open>merged[row.cc]\<close> raises KeyError for
  a label that is not a column; a label carried by two columns selects a frame, which is
  no row mask; assigning to a missing column adds it, which pandas refuses with a scalar
  on a frame without rows.
\<close>

definition apply_rule :: "hrule \<Rightarrow> matrix \<Rightarrow> error + matrix" where
  "apply_rule r m =
     (let t = rule_cc r; s = rule_to_zero r in
      if t \<notin> set (mcolumns m) then Inl (KeyError t)
      else if 1 < count_list (mcolumns m) t then Inl ValueError
      else if s \<notin> set (mcolumns m) \<and> mrows m = [] then Inl ValueError
      else Inr \<lparr>mcolumns = (if s \<in> set (mcolumns m) then mcolumns m else mcolumns m @ [s]),
               mrows = map (\<lambda>(rid, row). (rid, apply_rule_row t s row)) (mrows m)\<rparr>)"

fun cascade :: "hrule list \<Rightarrow> matrix \<Rightarrow> error + matrix" where
  "cascade [] m = Inr m"
| "cascade (r # rs) m =
     (case apply_rule r m of Inl e \<Rightarrow> Inl e | Inr m' \<Rightarrow> cascade rs m')"

text \<open>The value of recipient \<open>rid\<close> in column \<open>c\<close>, when the matrix has such a cell.\<close>

definition cell_at :: "matrix \<Rightarrow> cell \<Rightarrow> cell \<Rightarrow> cell option" where
  "cell_at m rid c = (case map_of (mrows m) rid of None \<Rightarrow> None | Some row \<Rightarrow> map_of row c)"

section \<open>Data frames\<close>

text \<open>
  A frame as \<open>pd.read_csv\<close> or the caller hands it over: the column names and the rows,
  each row an association list from column name to cell.  A column a row does not carry
  reads as null.  Dtypes are not modelled: cells compare by value.
\<close>

type_synonym frow = "(string \<times> cell) list"

record frame =
  fcolumns :: "string list"
  frows :: "frow list"

definition cell_of :: "frow \<Rightarrow> string \<Rightarrow> cell" where
  "cell_of row c = (case map_of row c of None \<Rightarrow> NaN | Some v \<Rightarrow> v)"

definition bind :: "error + 'a \<Rightarrow> ('a \<Rightarrow> error + 'b) \<Rightarrow> error + 'b" where
  "bind x f = (case x of Inl e \<Rightarrow> Inl e | Inr v \<Rightarrow> f v)"

fun sequence :: "(error + 'a) list \<Rightarrow> error + 'a list" where
  "sequence [] = Inr []"
| "sequence (x # xs) =
     (case x of Inl e \<Rightarrow> Inl e
      | Inr v \<Rightarrow> (case sequence xs of Inl e \<Rightarrow> Inl e | Inr vs \<Rightarrow> Inr (v # vs)))"

text \<open>\<open>df[name]\<close>: the column's values, KeyError for an unknown column.\<close>

definition get_column :: "string \<Rightarrow> frame \<Rightarrow> error + cell list" where
  "get_column name f =
     (if name \<in> set (fcolumns f) then Inr (map (\<lambda>row. cell_of row name) (frows f))
      else Inl (KeyError (StrC name)))"

text \<open>
  \<open>df[name] = values\<close>, with one value per row: the column is overwritten, or added as
  the last one.
\<close>

definition set_column :: "string \<Rightarrow> cell list \<Rightarrow> frame \<Rightarrow> frame" where
  "set_column name vals f =
     \<lparr>fcolumns = (if name \<in> set (fcolumns f) then fcolumns f else fcolumns f @ [name]),
      frows = map (\<lambda>(row, v). set_cell name v row) (zip (frows f) vals)\<rparr>"

text \<open>\<open>.dt.year\<close> on one cell of a datetime column; any other value has no \<open>.dt\<close>.\<close>

definition dt_year :: "cell \<Rightarrow> error + cell" where
  "dt_year c = (case c of DateC y m d \<Rightarrow> Inr (IntC y) | NaN \<Rightarrow> Inr NaN | _ \<Rightarrow> Inl AttributeError)"

fun uniq :: "'a list \<Rightarrow> 'a list \<Rightarrow> 'a list" where
  "uniq seen [] = seen"
| "uniq seen (x # xs) = uniq (if x \<in> set seen then seen else seen @ [x]) xs"

definition reindex_row :: "string list \<Rightarrow> frow \<Rightarrow> frow" where
  "reindex_row cols row = map (\<lambda>c. (c, cell_of row c)) cols"

text \<open>
  \<open>pd.concat(lst)\<close>: ValueError for an empty list; otherwise the rows of all frames in
  order, over the union of their columns, null where a frame lacks a column.
\<close>

definition concat_frames :: "frame list \<Rightarrow> error + frame" where
  "concat_frames fs =
     (if fs = [] then Inl ValueError
      else let cols = uniq [] (concat (map fcolumns fs))
           in Inr \<lparr>fcolumns = cols, frows = concat (map (\<lambda>f. map (reindex_row cols) (frows f)) fs)\<rparr>)"

text \<open>
  \<open>left.merge(right, on=keys, how='left')\<close>.  A key missing from either frame raises
  KeyError.  Every left row is kept, in order, once per right row that agrees with it on
  all keys (in the right frame's order), or once with nulls when there is none.  A
  non-key column both frames have is renamed with the suffixes \<open>_x\<close> and \<open>_y\<close>.
\<close>

definition matching_rows :: "frame \<Rightarrow> string list \<Rightarrow> frow \<Rightarrow> frow list" where
  "matching_rows r ks a = filter (\<lambda>b. list_all (\<lambda>k. cell_of a k = cell_of b k) ks) (frows r)"

definition merge_left :: "frame \<Rightarrow> frame \<Rightarrow> string list \<Rightarrow> error + frame" where
  "merge_left l r ks =
     (case filter (\<lambda>k. k \<notin> set (fcolumns r) \<or> k \<notin> set (fcolumns l)) ks of
        k # _ \<Rightarrow> Inl (KeyError (StrC k))
      | [] \<Rightarrow>
         (let rcols = filter (\<lambda>c. c \<notin> set ks) (fcolumns r);
              lname = (\<lambda>c. if c \<in> set rcols then c @ ''_x'' else c);
              rname = (\<lambda>c. if c \<in> set (fcolumns l) then c @ ''_y'' else c);
              lrow = (\<lambda>a. map (\<lambda>c. (lname c, cell_of a c)) (fcolumns l));
              rrow = (\<lambda>b. map (\<lambda>c. (rname c, cell_of b c)) rcols);
              nulls = map (\<lambda>c. (rname c, NaN)) rcols
          in Inr \<lparr>fcolumns = map lname (fcolumns l) @ map rname rcols,
                  frows = concat (map (\<lambda>a. case matching_rows r ks a of
                                               [] \<Rightarrow> [lrow a @ nulls]
                                             | bs \<Rightarrow> map (\<lambda>b. lrow a @ rrow b) bs) (frows l))\<rparr>))"

text \<open>\<open>.drop(columns=names)\<close>: KeyError when a name is no column.\<close>

definition drop_columns :: "string list \<Rightarrow> frame \<Rightarrow> error + frame" where
  "drop_columns names f =
     (case filter (\<lambda>n. n \<notin> set (fcolumns f)) names of
        n # _ \<Rightarrow> Inl (KeyError (StrC n))
      | [] \<Rightarrow> Inr \<lparr>fcolumns = filter (\<lambda>c. c \<notin> set names) (fcolumns f),
                    frows = map (filter (\<lambda>(k, v). k \<notin> set names)) (frows f)\<rparr>)"

text \<open>\<open>merged[merged.cc.notnull()]\<close>: the attribute \<open>cc\<close> exists only as a column.\<close>

definition keep_mapped :: "frame \<Rightarrow> error + frame" where
  "keep_mapped f =
     (if ''cc'' \<notin> set (fcolumns f) then Inl AttributeError
      else Inr (f\<lparr>frows := filter (\<lambda>row. cell_of row ''cc'' \<noteq> NaN) (frows f)\<rparr>))"

text \<open>
  The order in which \<open>groupby\<close> sorts its group keys: a cell's kind first (booleans,
  integers, strings, dates), then its value; strings by code point.
\<close>

fun cell_key :: "cell \<Rightarrow> nat \<times> int list" where
  "cell_key (BoolC b) = (0, [if b then 1 else 0])"
| "cell_key (IntC n) = (1, [n])"
| "cell_key (StrC s) = (2, map (\<lambda>c. int (of_char c)) s)"
| "cell_key (DateC y m d) = (3, [y, m, d])"
| "cell_key NaN = (4, [])"

text \<open>
  \<open>merged.groupby(['recip_id', 'cc']).size().unstack(fill_value=0)
  .reindex(df_list.cc, axis=1, fill_value=0).astype(bool)\<close>:
  one row per recipient of \<open>merged\<close> (null recipients form no group), sorted; one column
  per value of \<open>df_list.cc\<close>, in the table's order; a cell is \<open>True\<close> exactly when some row
  of \<open>merged\<close> pairs the recipient with the CC.  A frame \<open>merged\<close> without rows gives a
  table without rows.
\<close>

definition cc_universe :: "frame \<Rightarrow> cell list" where
  "cc_universe df_list = map (\<lambda>row. cell_of row ''cc'') (frows df_list)"

definition truth_table :: "frame \<Rightarrow> frame \<Rightarrow> error + matrix" where
  "truth_table merged df_list =
     (if ''recip_id'' \<notin> set (fcolumns merged) then Inl (KeyError (StrC ''recip_id''))
      else if ''cc'' \<notin> set (fcolumns merged) then Inl (KeyError (StrC ''cc''))
      else if ''cc'' \<notin> set (fcolumns df_list) then Inl AttributeError
      else
        let labels = cc_universe df_list;
            pairs = map (\<lambda>row. (cell_of row ''recip_id'', cell_of row ''cc'')) (frows merged);
            recips = sort_key cell_key (remdups (filter (\<lambda>r. r \<noteq> NaN) (map fst pairs)))
        in Inr \<lparr>mcolumns = labels,
                mrows = map (\<lambda>rid. (rid, map (\<lambda>c. (c, BoolC ((rid, c) \<in> set pairs))) labels)) recips\<rparr>)"

text \<open>
  The loop \<open>for index, row in df_hier.iterrows()\<close>.  \<open>row.cc\<close> and \<open>row.to_zero\<close> are read
  when a row is visited, \<open>row.cc\<close> first, so a rules table without rows never fails.
\<close>

definition hier_rules :: "frame \<Rightarrow> hrule list" where
  "hier_rules df_hier = map (\<lambda>row. Rule (cell_of row ''to_zero'') (cell_of row ''cc'')) (frows df_hier)"

definition apply_hierarchies :: "frame \<Rightarrow> matrix \<Rightarrow> error + matrix" where
  "apply_hierarchies df_hier m =
     (case frows df_hier of
        [] \<Rightarrow> Inr m
      | first # _ \<Rightarrow>
         if ''cc'' \<notin> set (fcolumns df_hier) then Inl AttributeError
         else if ''to_zero'' \<notin> set (fcolumns df_hier) then
           (let t = cell_of first ''cc'' in
            if t \<notin> set (mcolumns m) then Inl (KeyError t)
            else if 1 < count_list (mcolumns m) t then Inl ValueError
            else Inl AttributeError)
         else cascade (hier_rules df_hier) m)"

section \<open>The stored reference tables and \<open>generate_hccs\<close>\<close>

text \<open>
  The two directories \<open>generate_hccs\<close> reads: \<open>Crosswalks\<close> as \<open>os.listdir\<close> lists it and
  \<open>ConditionCategory\<close>, each file under its name with the frame \<open>pd.read_csv\<close> makes of it.
\<close>

record filesystem =
  crosswalks_dir :: "(string \<times> frame) list"
  condition_category_dir :: "(string \<times> frame) list"

fun starts_with :: "string \<Rightarrow> string \<Rightarrow> bool" where
  "starts_with s [] = True"
| "starts_with [] (p # ps) = False"
| "starts_with (c # cs) (p # ps) = (c = p \<and> starts_with cs ps)"

text \<open>Python's \<open>sub in s\<close> on strings.\<close>

fun contains :: "string \<Rightarrow> string \<Rightarrow> bool" where
  "contains [] sub = (sub = [])"
| "contains (c # cs) sub = (starts_with (c # cs) sub \<or> contains cs sub)"

definition read_csv :: "(string \<times> frame) list \<Rightarrow> string \<Rightarrow> error + frame" where
  "read_csv dir name = (case map_of dir name of None \<Rightarrow> Inl (FileNotFoundError name) | Some f \<Rightarrow> Inr f)"

text \<open>Lines 23-33: the crosswalks of the version, unioned; the rules; the CC list.\<close>

definition load_tables :: "filesystem \<Rightarrow> string \<Rightarrow> error + (frame \<times> frame \<times> frame)" where
  "load_tables fs version =
     (let crosswalk_list = filter (\<lambda>file. contains file version) (map fst (crosswalks_dir fs));
          hierarchy = version @ ''_rules.csv'';
          cc_list = version @ ''_labels.csv''
      in bind (sequence (map (read_csv (crosswalks_dir fs)) crosswalk_list)) (\<lambda>lst.
         bind (concat_frames lst) (\<lambda>df_map.
         bind (read_csv (condition_category_dir fs) hierarchy) (\<lambda>df_hier.
         bind (read_csv (condition_category_dir fs) cc_list) (\<lambda>df_list.
         Inr (df_map, df_hier, df_list))))))"

text \<open>Line 37: \<open>df['year'] = df['claim_date'].dt.year\<close>, on the caller's frame.\<close>

definition add_year :: "frame \<Rightarrow> error + frame" where
  "add_year df =
     bind (get_column ''claim_date'' df) (\<lambda>dates.
     bind (sequence (map dt_year dates)) (\<lambda>years.
     Inr (set_column ''year'' years df)))"

text \<open>Lines 39-43: the left join on the crosswalk, the helper columns dropped, the unmapped rows dropped.\<close>

definition join_keys :: "string list" where
  "join_keys = [''diag_code'', ''year'', ''version'']"

definition join_ccs :: "frame \<Rightarrow> frame \<Rightarrow> error + frame" where
  "join_ccs df df_map =
     bind (merge_left df df_map join_keys) (\<lambda>joined.
     bind (drop_columns [''claim_date'', ''year''] joined) keep_mapped)"

text \<open>The matrix before the hierarchies are applied (lines 23-49), from the caller's frame.\<close>

definition presence_matrix :: "filesystem \<Rightarrow> frame \<Rightarrow> string \<Rightarrow> error + matrix" where
  "presence_matrix fs df version =
     bind (load_tables fs version) (\<lambda>(df_map, df_hier, df_list).
     bind (add_year df) (\<lambda>df1.
     bind (join_ccs df1 df_map) (\<lambda>merged. truth_table merged df_list)))"

text \<open>
  \<open>generate_hccs(df, version)\<close>: what it returns or raises, and the caller's frame \<open>df\<close> as
  the call leaves it.
\<close>

definition generate_hccs :: "filesystem \<Rightarrow> frame \<Rightarrow> string \<Rightarrow> (error + matrix) \<times> frame" where
  "generate_hccs fs df version =
     (case load_tables fs version of
        Inl e \<Rightarrow> (Inl e, df)
      | Inr (df_map, df_hier, df_list) \<Rightarrow>
         (case add_year df of
            Inl e \<Rightarrow> (Inl e, df)
          | Inr df1 \<Rightarrow>
             (bind (join_ccs df1 df_map) (\<lambda>merged.
              bind (truth_table merged df_list) (apply_hierarchies df_hier)), df1)))"

section \<open>The end-to-end scenario\<close>

text \<open>
  The scenario of the specification, in the column names \<open>generate_hccs\<close> reads: three
  CCs, the rule that CC 1 zeroes CC 2, a crosswalk for 2020, and the diagnosis records of
  R1 and R2, R1 also holding a code mapped directly to CC 2.
\<close>

definition scenario_df :: frame where
  "scenario_df =
     \<lparr>fcolumns = [''recip_id'', ''diag_code'', ''version'', ''claim_date''],
      frows =
        [[(''recip_id'', StrC ''R1''), (''diag_code'', StrC ''E11.9''), (''version'', IntC 10),
          (''claim_date'', DateC 2020 3 1)],
         [(''recip_id'', StrC ''R1''), (''diag_code'', StrC ''I10''), (''version'', IntC 10),
          (''claim_date'', DateC 2020 4 1)],
         [(''recip_id'', StrC ''R1''), (''diag_code'', StrC ''E11.2''), (''version'', IntC 10),
          (''claim_date'', DateC 2020 5 1)],
         [(''recip_id'', StrC ''R2''), (''diag_code'', StrC ''E11.9''), (''version'', IntC 10),
          (''claim_date'', DateC 2020 1 1)]]\<rparr>"

definition scenario_crosswalk :: frame where
  "scenario_crosswalk =
     \<lparr>fcolumns = [''diag_code'', ''cc'', ''version'', ''year''],
      frows =
        [[(''diag_code'', StrC ''E11.9''), (''cc'', IntC 1), (''version'', IntC 10), (''year'', IntC 2020)],
         [(''diag_code'', StrC ''I10''), (''cc'', IntC 3), (''version'', IntC 10), (''year'', IntC 2020)],
         [(''diag_code'', StrC ''E11.2''), (''cc'', IntC 2), (''version'', IntC 10), (''year'', IntC 2020)]]\<rparr>"

definition scenario_rules :: frame where
  "scenario_rules =
     \<lparr>fcolumns = [''to_zero'', ''cc''], frows = [[(''to_zero'', IntC 2), (''cc'', IntC 1)]]\<rparr>"

definition scenario_labels :: frame where
  "scenario_labels =
     \<lparr>fcolumns = [''cc'', ''label''],
      frows =
        [[(''cc'', IntC 1), (''label'', StrC ''Diabetes'')],
         [(''cc'', IntC 2), (''label'', StrC ''Diabetes complications'')],
         [(''cc'', IntC 3), (''label'', StrC ''Minor condition'')]]\<rparr>"

definition scenario_fs :: filesystem where
  "scenario_fs =
     \<lparr>crosswalks_dir = [(''2020_v22_icd10.csv'', scenario_crosswalk)],
      condition_category_dir = [(''v22_rules.csv'', scenario_rules), (''v22_labels.csv'', scenario_labels)]\<rparr>"

definition scenario_pre :: matrix where
  "scenario_pre =
     \<lparr>mcolumns = [IntC 1, IntC 2, IntC 3],
      mrows =
        [(StrC ''R1'', [(IntC 1, BoolC True), (IntC 2, BoolC True), (IntC 3, BoolC True)]),
         (StrC ''R2'', [(IntC 1, BoolC True), (IntC 2, BoolC False), (IntC 3, BoolC False)])]\<rparr>"

definition scenario_out :: matrix where
  "scenario_out =
     \<lparr>mcolumns = [IntC 1, IntC 2, IntC 3],
      mrows =
        [(StrC ''R1'', [(IntC 1, BoolC True), (IntC 2, BoolC False), (IntC 3, BoolC True)]),
         (StrC ''R2'', [(IntC 1, BoolC True), (IntC 2, BoolC False), (IntC 3, BoolC False)])]\<rparr>"

text \<open>The scenario with two chained rules, CC 1 zeroes CC 2 and CC 2 zeroes CC 3, and with the same two rows stored in the opposite order.\<close>

definition chain_hier :: frame where
  "chain_hier =
     \<lparr>fcolumns = [''to_zero'', ''cc''],
      frows = [[(''to_zero'', IntC 2), (''cc'', IntC 1)], [(''to_zero'', IntC 3), (''cc'', IntC 2)]]\<rparr>"

definition chain_fs :: filesystem where
  "chain_fs =
     \<lparr>crosswalks_dir = [(''2020_v22_icd10.csv'', scenario_crosswalk)],
      condition_category_dir = [(''v22_rules.csv'', chain_hier), (''v22_labels.csv'', scenario_labels)]\<rparr>"

definition chain_rev_fs :: filesystem where
  "chain_rev_fs =
     \<lparr>crosswalks_dir = [(''2020_v22_icd10.csv'', scenario_crosswalk)],
      condition_category_dir =
        [(''v22_rules.csv'', chain_hier\<lparr>frows := rev (frows chain_hier)\<rparr>), (''v22_labels.csv'', scenario_labels)]\<rparr>"

definition chain_rev_out :: matrix where
  "chain_rev_out =
     \<lparr>mcolumns = [IntC 1, IntC 2, IntC 3],
      mrows =
        [(StrC ''R1'', [(IntC 1, BoolC True), (IntC 2, BoolC False), (IntC 3, BoolC False)]),
         (StrC ''R2'', [(IntC 1, BoolC True), (IntC 2, BoolC False), (IntC 3, BoolC False)])]\<rparr>"

text \<open>The scenario with a rule that zeroes CC 9, which the labels table does not list.\<close>

definition extra_rules :: frame where
  "extra_rules =
     \<lparr>fcolumns = [''to_zero'', ''cc''], frows = [[(''to_zero'', IntC 9), (''cc'', IntC 1)]]\<rparr>"

definition extra_fs :: filesystem where
  "extra_fs =
     \<lparr>crosswalks_dir = [(''2020_v22_icd10.csv'', scenario_crosswalk)],
      condition_category_dir = [(''v22_rules.csv'', extra_rules), (''v22_labels.csv'', scenario_labels)]\<rparr>"

definition extra_out :: matrix where
  "extra_out =
     \<lparr>mcolumns = [IntC 1, IntC 2, IntC 3, IntC 9],
      mrows =
        [(StrC ''R1'', [(IntC 1, BoolC True), (IntC 2, BoolC True), (IntC 3, BoolC True), (IntC 9, BoolC False)]),
         (StrC ''R2'', [(IntC 1, BoolC True), (IntC 2, BoolC False), (IntC 3, BoolC False), (IntC 9, BoolC False)])]\<rparr>"

text \<open>The scenario with a labels table and a rules table that have their header but no rows.\<close>

definition empty_labels :: frame where
  "empty_labels = \<lparr>fcolumns = [''cc'', ''label''], frows = []\<rparr>"

definition empty_rules :: frame where
  "empty_rules = \<lparr>fcolumns = [''to_zero'', ''cc''], frows = []\<rparr>"

definition degenerate_fs :: filesystem where
  "degenerate_fs =
     \<lparr>crosswalks_dir = [(''2020_v22_icd10.csv'', scenario_crosswalk)],
      condition_category_dir = [(''v22_rules.csv'', empty_rules), (''v22_labels.csv'', empty_labels)]\<rparr>"

definition degenerate_out :: matrix where
  "degenerate_out = \<lparr>mcolumns = [], mrows = [(StrC ''R1'', []), (StrC ''R2'', [])]\<rparr>"

text \<open>The same, with the scenario's rule but still no labels.\<close>

definition norows_fs :: filesystem where
  "norows_fs =
     \<lparr>crosswalks_dir = [(''2020_v22_icd10.csv'', scenario_crosswalk)],
      condition_category_dir = [(''v22_rules.csv'', scenario_rules), (''v22_labels.csv'', empty_labels)]\<rparr>"

section \<open>Strings as the extractors read them\<close>

text \<open>
  The characters the patterns \<open>\s\<close> and \<open>\d\<close> accept, within ASCII: the six white-space
  characters and the four separators 28-31, and the digits 0-9.
\<close>

definition is_space :: "char \<Rightarrow> bool" where
  "is_space c = (let n = (of_char c :: nat) in (9 \<le> n \<and> n \<le> 13) \<or> (28 \<le> n \<and> n \<le> 32))"

definition is_digit :: "char \<Rightarrow> bool" where
  "is_digit c = (let n = (of_char c :: nat) in 48 \<le> n \<and> n \<le> 57)"

text \<open>
  \<open>re.split('\s+', s)\<close>: the pieces between the runs of white space; a string that
  starts or ends with white space has an empty first or last piece.  The flag says that
  the previous character was white space.
\<close>

fun split_ws_from :: "bool \<Rightarrow> string \<Rightarrow> string \<Rightarrow> string list" where
  "split_ws_from gap acc [] = [rev acc]"
| "split_ws_from gap acc (c # cs) =
     (if is_space c then (if gap then split_ws_from True [] cs else rev acc # split_ws_from True [] cs)
      else split_ws_from False (c # acc) cs)"

definition split_ws :: "string \<Rightarrow> string list" where
  "split_ws s = split_ws_from False [] s"

text \<open>Python's \<open>s.split(sep)\<close> for a one-character separator.\<close>

fun split_on :: "char \<Rightarrow> string \<Rightarrow> string list" where
  "split_on sep [] = [[]]"
| "split_on sep (c # cs) =
     (if c = sep then [] # split_on sep cs
      else (case split_on sep cs of [] \<Rightarrow> [[c]] | p # ps \<Rightarrow> (c # p) # ps))"

text \<open>The text after the first occurrence of \<open>pat\<close>, if there is one.\<close>

fun find_after :: "string \<Rightarrow> string \<Rightarrow> string option" where
  "find_after pat [] = (if pat = [] then Some [] else None)"
| "find_after pat (c # cs) =
     (if starts_with (c # cs) pat then Some (drop (length pat) (c # cs)) else find_after pat cs)"

definition strip :: "string \<Rightarrow> string" where
  "strip s = rev (dropWhile is_space (rev (dropWhile is_space s)))"

definition digits_value :: "string \<Rightarrow> int" where
  "digits_value ds = foldl (\<lambda>a c. 10 * a + (int (of_char c) - 48)) 0 ds"

text \<open>
  Python's \<open>int(s)\<close> on a string: white space around it is ignored, a sign may lead,
  and the digits may be grouped by single underscores; anything else raises ValueError.
\<close>

definition parse_int :: "string \<Rightarrow> error + int" where
  "parse_int s =
     (let t = strip s;
          (neg, body) = (case t of
                           c # r \<Rightarrow> if c = CHR ''-'' then (True, r)
                                    else if c = CHR ''+'' then (False, r) else (False, t)
                         | [] \<Rightarrow> (False, t));
          groups = split_on (CHR ''_'') body
      in if list_all (\<lambda>g. g \<noteq> [] \<and> list_all is_digit g) groups
         then Inr ((if neg then - 1 else 1) * digits_value (concat groups))
         else Inl ValueError)"

section \<open>\<open>format_crosswaks\<close>\<close>

text \<open>
  The directory \<open>Raw\<close>: for each path below it, the first column of the table
  \<open>pd.read_table(path, header=None)\<close> reads, one string per line.  A directory of written
  csv files keeps, for each name, the frame that was saved last.
\<close>

type_synonym rawdir = "(string \<times> string list) list"

definition read_table :: "rawdir \<Rightarrow> string \<Rightarrow> error + string list" where
  "read_table raw file =
     (case map_of raw file of
        None \<Rightarrow> Inl (FileNotFoundError file)
      | Some [] \<Rightarrow> Inl EmptyDataError
      | Some ls \<Rightarrow> Inr ls)"

text \<open>\<open>year, cc_version, name = file.split('/')\<close>: exactly three parts, or ValueError.\<close>

definition split_path :: "string \<Rightarrow> error + (string \<times> string \<times> string)" where
  "split_path file =
     (case split_on (CHR ''/'') file of [a, b, c] \<Rightarrow> Inr (a, b, c) | _ \<Rightarrow> Inl ValueError)"

text \<open>
  Lines 180-189 and 231-236: the columns \<open>icd\<close> and \<open>cc\<close> are the first and the second
  piece of each line (\<open>item[1]\<close> raises IndexError on a line with one piece), then the
  coding system and the year of the path.
\<close>

definition crosswalk_row :: "int \<Rightarrow> int \<Rightarrow> string list \<Rightarrow> frow" where
  "crosswalk_row coding year item =
     [(''icd'', StrC (hd item)), (''cc'', StrC (hd (tl item))),
      (''version'', IntC coding), (''year'', IntC year)]"

definition crosswalk_frame :: "string list \<Rightarrow> int \<Rightarrow> string \<Rightarrow> error + frame" where
  "crosswalk_frame ls coding year =
     (let items = map split_ws ls in
      if list_all (\<lambda>item. 2 \<le> length item) items then
        bind (parse_int year) (\<lambda>y.
          Inr \<lparr>fcolumns = [''icd'', ''cc'', ''version'', ''year''],
               frows = map (crosswalk_row coding y) items\<rparr>)
      else Inl IndexError)"

text \<open>
  \<open>pd.DataFrame([row for row in product(*d.values())], columns=d.keys())\<close> for a
  dictionary with one year, a list of codes, the coding system 9 and one CC.
\<close>

definition extra_frame :: "int \<Rightarrow> string list \<Rightarrow> int \<Rightarrow> frame" where
  "extra_frame year icds cc_id =
     \<lparr>fcolumns = [''year'', ''icd'', ''version'', ''cc''],
      frows = map (\<lambda>icd. [(''year'', IntC year), (''icd'', StrC icd), (''version'', IntC 9),
                           (''cc'', IntC cc_id)]) icds\<rparr>"

text \<open>
  \<open>a.append(b)\<close>: the rows of both frames over the union of their columns, the columns
  in the order of their first appearance.
\<close>

definition append_frame :: "frame \<Rightarrow> frame \<Rightarrow> frame" where
  "append_frame a b =
     (let cols = uniq [] (fcolumns a @ fcolumns b)
      in \<lparr>fcolumns = cols, frows = map (reindex_row cols) (frows a @ frows b)\<rparr>)"

text \<open>
  Lines 192-220: the branch that binds \<open>df_extra\<close>.  When no branch is taken the variable
  keeps what an earlier file of the loop left in it, or stays unbound.
\<close>

definition extra_mappings :: "string \<Rightarrow> int \<Rightarrow> frame option \<Rightarrow> frame option" where
  "extra_mappings cc_version year df_extra =
     (if cc_version = ''v12'' then
        Some (extra_frame year [''40403'', ''40413'', ''40493''] 80)
      else if cc_version = ''v21'' \<and> year \<le> 2015 then
        Some (append_frame (extra_frame year [''3572'', ''36202''] 18)
               (extra_frame year [''40401'', ''40403'', ''40411'', ''40413'', ''40491'', ''40493''] 85))
      else if cc_version = ''v22'' \<and> year \<le> 2015 then
        Some (append_frame (extra_frame year [''36202''] 18)
               (extra_frame year [''40403'', ''40413'', ''40493''] 85))
      else df_extra)"

text \<open>
  One pass of the loop over \<open>icd9_list\<close> (lines 176-225), on the variable \<open>df_extra\<close> and
  the directory \<open>Crosswalks\<close>; \<open>df.append(df_extra)\<close> raises NameError while \<open>df_extra\<close> is
  unbound.
\<close>

definition icd9_step ::
  "rawdir \<Rightarrow> frame option \<times> (string \<times> frame) list \<Rightarrow> string
   \<Rightarrow> error + (frame option \<times> (string \<times> frame) list)" where
  "icd9_step raw st file =
     bind (split_path file) (\<lambda>(year, cc_version, name).
     bind (read_table raw file) (\<lambda>ls.
     bind (crosswalk_frame ls 9 year) (\<lambda>df.
     bind (parse_int year) (\<lambda>y.
       (case extra_mappings cc_version y (fst st) of
          None \<Rightarrow> Inl NameError
        | Some df_extra \<Rightarrow>
            Inr (Some df_extra,
                 set_cell (year @ ''_'' @ cc_version @ ''_icd9.csv'') (append_frame df df_extra) (snd st)))))))"

text \<open>One pass of the loop over \<open>icd10_list\<close> (lines 229-237).\<close>

definition icd10_step ::
  "rawdir \<Rightarrow> (string \<times> frame) list \<Rightarrow> string \<Rightarrow> error + (string \<times> frame) list" where
  "icd10_step raw dir file =
     bind (split_path file) (\<lambda>(year, cc_version, name).
     bind (read_table raw file) (\<lambda>ls.
     bind (crosswalk_frame ls 10 year) (\<lambda>df.
       Inr (set_cell (year @ ''_'' @ cc_version @ ''_icd10.csv'') df dir))))"

text \<open>A loop over files that stops at the first exception, keeping what was done before.\<close>

fun run_files :: "('s \<Rightarrow> string \<Rightarrow> error + 's) \<Rightarrow> string list \<Rightarrow> 's \<Rightarrow> error option \<times> 's" where
  "run_files step [] s = (None, s)"
| "run_files step (f # fs) s =
     (case step s f of Inl e \<Rightarrow> (Some e, s) | Inr s' \<Rightarrow> run_files step fs s')"

text \<open>
  \<open>format_crosswaks(icd9_list, icd10_list)\<close> (an omitted list is the empty list): the
  exception it ends with, if any, and the directory \<open>Crosswalks\<close> afterwards.
\<close>

definition format_crosswaks ::
  "rawdir \<Rightarrow> string list \<Rightarrow> string list \<Rightarrow> (string \<times> frame) list
   \<Rightarrow> error option \<times> (string \<times> frame) list" where
  "format_crosswaks raw icd9_list icd10_list dir =
     (case run_files (icd9_step raw) icd9_list (None, dir) of
        (Some e, st) \<Rightarrow> (Some e, snd st)
      | (None, st) \<Rightarrow> run_files (icd10_step raw) icd10_list (snd st))"

section \<open>\<open>extract_hierachy_rules\<close>\<close>

text \<open>
  What differs between the versions: the token the line is split at, the marker in front
  of the trigger, the marker in front of the list, and whether a list separator may start
  with white space (\<open>\s?,\s?\<close> for v21 and v22, \<open>,\s?\<close> for v12).  Any other version has
  no branch.
\<close>

record grammar =
  anchor :: string
  marker :: string
  list_marker :: string
  lead_space :: bool

definition grammar_of :: "string \<Rightarrow> grammar option" where
  "grammar_of cc_version =
     (if cc_version = ''v12'' then
        Some \<lparr>anchor = ''if h'', marker = ''cc'', list_marker = ''i='', lead_space = False\<rparr>
      else if cc_version = ''v21'' \<or> cc_version = ''v22'' then
        Some \<lparr>anchor = ''%SET0('', marker = ''CC='', list_marker = ''%STR('', lead_space = True\<rparr>
      else None)"

text \<open>
  \<open>str.extract(marker + '(<?[0-9]*)')\<close>: at the first occurrence of the marker, an optional
  \<open><\<close> and the digits that follow, which may be none; null without the marker.
\<close>

definition extract_condition :: "string \<Rightarrow> string \<Rightarrow> string option" where
  "extract_condition mk logic =
     (case find_after mk logic of
        None \<Rightarrow> None
      | Some rest \<Rightarrow>
          Some (case rest of
                  [] \<Rightarrow> []
                | c # r \<Rightarrow> if c = CHR ''<'' then c # takeWhile is_digit r
                           else takeWhile is_digit rest))"

text \<open>Greedy \<open>[\d]{1,3}\<close> at the head of a string: up to three digits.\<close>

definition digits3 :: "string \<Rightarrow> string" where
  "digits3 s = takeWhile is_digit (take 3 s)"

text \<open>
  One round of the group \<open>(\s?,\s?[\d]{1,3})\<close>, or \<open>(,\s?[\d]{1,3})\<close> without the leading
  white space, at the head of a string: the text it matches.
\<close>

definition list_item :: "bool \<Rightarrow> string \<Rightarrow> string option" where
  "list_item lead s =
     (let (w1, s1) = (case s of c # r \<Rightarrow> if lead \<and> is_space c then ([c], r) else ([], s)
                      | [] \<Rightarrow> ([], s))
      in case s1 of
           [] \<Rightarrow> None
         | c # r \<Rightarrow>
             if c = CHR '','' then
               (let (w2, s2) = (case r of d # r' \<Rightarrow> if is_space d then ([d], r') else ([], r)
                                | [] \<Rightarrow> ([], r));
                    n = digits3 s2
                in if n = [] then None else Some (w1 @ [c] @ w2 @ n))
             else None)"

function list_items :: "bool \<Rightarrow> string \<Rightarrow> string" where
  "list_items lead s =
     (case list_item lead s of None \<Rightarrow> [] | Some m \<Rightarrow> m @ list_items lead (drop (length m) s))"
  by pat_completeness auto
termination
proof (relation "measure (\<lambda>(lead, s). length s)")
  fix lead :: bool and s m :: string
  assume "list_item lead s = Some m"
  then have "m \<noteq> [] \<and> s \<noteq> []"
    by (cases s) (auto simp: list_item_def Let_def split: if_splits list.splits prod.splits)
  then show "((lead, drop (length m) s), (lead, s)) \<in> measure (\<lambda>(lead, s). length s)"
    by simp
qed simp

text \<open>
  The pattern \<open>([\d]{1,3}(,\s?[\d]{1,3})*)\<close>, or its v21 and v22 form with \<open>\s?,\s?\<close>, at
  the head of a string.  Each part is greedy and what follows it can match nothing, so
  the first choice stands.
\<close>

definition match_list :: "bool \<Rightarrow> string \<Rightarrow> string option" where
  "match_list lead s =
     (let n = digits3 s in if n = [] then None else Some (n @ list_items lead (drop (length n) s)))"

text \<open>
  \<open>str.extract('(?<=pre)([\d]{1,3}(,\s?[\d]{1,3})*)')[0]\<close>: the match at the leftmost
  place that follows the text \<open>pre\<close>.
\<close>

fun search_list :: "string \<Rightarrow> bool \<Rightarrow> string \<Rightarrow> string option" where
  "search_list pre lead [] = None"
| "search_list pre lead (c # cs) =
     (if starts_with (c # cs) pre then
        (case match_list lead (drop (length pre) (c # cs)) of
           Some z \<Rightarrow> Some z
         | None \<Rightarrow> search_list pre lead cs)
      else search_list pre lead cs)"

text \<open>
  The columns \<open>logic\<close>, \<open>condition\<close> and \<open>zeros\<close> of one line: \<open>logic\<close> is what follows the
  first anchor and is null without one, and then the other two are null as well.
\<close>

definition line_logic :: "grammar \<Rightarrow> string \<Rightarrow> string option" where
  "line_logic g text = find_after (anchor g) text"

definition line_condition :: "grammar \<Rightarrow> string \<Rightarrow> string option" where
  "line_condition g text =
     (case line_logic g text of None \<Rightarrow> None | Some logic \<Rightarrow> extract_condition (marker g) logic)"

definition line_zeros :: "grammar \<Rightarrow> string \<Rightarrow> string option" where
  "line_zeros g text =
     (case line_logic g text of None \<Rightarrow> None
      | Some logic \<Rightarrow> search_list (list_marker g) (lead_space g) logic)"

text \<open>
  Lines 78-98: the frame \<open>df\<close>, here its columns \<open>condition\<close> and \<open>zeros\<close>.  When no line
  has the anchor, every split has one piece and \<open>pd.DataFrame\<close> refuses the two column
  names.
\<close>

definition logic_frame :: "grammar \<Rightarrow> string list \<Rightarrow> error + (string option \<times> string option) list" where
  "logic_frame g ls =
     (if list_all (\<lambda>text. line_logic g text = None) ls then Inl ValueError
      else Inr (map (\<lambda>text. (line_condition g text, line_zeros g text)) ls))"

text \<open>The rows \<open>pd.Series(row['condition'], row['zeros'].split(','))\<close> gives for one row of \<open>smalldf\<close>.\<close>

definition rule_rows :: "string \<Rightarrow> string \<Rightarrow> frow list" where
  "rule_rows condition zeros =
     map (\<lambda>z. [(''to_zero'', StrC z), (''cc'', StrC condition)]) (split_on (CHR '','') zeros)"

text \<open>
  Lines 102-106: the rows with both columns not null, exploded; \<open>pd.concat\<close> of no series
  raises ValueError.
\<close>

definition explode :: "(string option \<times> string option) list \<Rightarrow> error + frame" where
  "explode df =
     (let smalldf = filter (\<lambda>(c, z). c \<noteq> None \<and> z \<noteq> None) df in
      if smalldf = [] then Inl ValueError
      else Inr \<lparr>fcolumns = [''to_zero'', ''cc''],
                frows = concat (map (\<lambda>(c, z). case (c, z) of
                                      (Some condition, Some zeros) \<Rightarrow> rule_rows condition zeros
                                    | _ \<Rightarrow> []) smalldf)\<rparr>)"

text \<open>The rules table of one file of a supported version.\<close>

definition file_rules :: "grammar \<Rightarrow> string list \<Rightarrow> error + frame" where
  "file_rules g ls = bind (logic_frame g ls) explode"

text \<open>
  One pass of the loop (lines 71-109) on the variable \<open>df\<close> and the directory
  \<open>ConditionCategory\<close>.  A version without a branch leaves \<open>df\<close> as the file before left
  it; using it while unbound raises NameError.
\<close>

definition hierarchy_step ::
  "rawdir \<Rightarrow> (string option \<times> string option) list option \<times> (string \<times> frame) list \<Rightarrow> string
   \<Rightarrow> error + ((string option \<times> string option) list option \<times> (string \<times> frame) list)" where
  "hierarchy_step raw st file =
     bind (split_path file) (\<lambda>(year, cc_version, name).
     bind (read_table raw file) (\<lambda>ls.
     bind (case grammar_of cc_version of
             None \<Rightarrow> (case fst st of None \<Rightarrow> Inl NameError | Some df \<Rightarrow> Inr df)
           | Some g \<Rightarrow> logic_frame g ls) (\<lambda>df.
     bind (explode df) (\<lambda>rules.
       Inr (Some df, set_cell (cc_version @ ''_rules.csv'') rules (snd st))))))"

definition extract_hierachy_rules ::
  "rawdir \<Rightarrow> string list \<Rightarrow> (string \<times> frame) list \<Rightarrow> error option \<times> (string \<times> frame) list" where
  "extract_hierachy_rules raw version_list dir =
     (case run_files (hierarchy_step raw) version_list (None, dir) of (e, st) \<Rightarrow> (e, snd st))"

text \<open>The contribution of one line to the rules table.\<close>

definition line_rules :: "grammar \<Rightarrow> string \<Rightarrow> frow list" where
  "line_rules g text =
     (case (line_condition g text, line_zeros g text) of
        (Some condition, Some zeros) \<Rightarrow> rule_rows condition zeros
      | _ \<Rightarrow> [])"

definition grammar_v12 :: grammar where
  "grammar_v12 = \<lparr>anchor = ''if h'', marker = ''cc'', list_marker = ''i='', lead_space = False\<rparr>"

text \<open>
  The scenario's crosswalk as a raw ICD-10 listing, and the directories \<open>generate_hccs\<close>
  reads once \<open>format_crosswaks\<close> has written \<open>Crosswalks\<close>.  Reading a written file back
  keeps its column names.
\<close>

definition scenario_raw :: rawdir where
  "scenario_raw = [(''2020/v22/F2220.txt'', [''E11.9 1'', ''I10 3'', ''E11.2 2''])]"

definition formatted_crosswalk :: frame where
  "formatted_crosswalk =
     \<lparr>fcolumns = [''icd'', ''cc'', ''version'', ''year''],
      frows =
        [[(''icd'', StrC ''E11.9''), (''cc'', StrC ''1''), (''version'', IntC 10), (''year'', IntC 2020)],
         [(''icd'', StrC ''I10''), (''cc'', StrC ''3''), (''version'', IntC 10), (''year'', IntC 2020)],
         [(''icd'', StrC ''E11.2''), (''cc'', StrC ''2''), (''version'', IntC 10), (''year'', IntC 2020)]]\<rparr>"

definition formatted_fs :: filesystem where
  "formatted_fs =
     \<lparr>crosswalks_dir = snd (format_crosswaks scenario_raw [] [''2020/v22/F2220.txt''] []),
      condition_category_dir = condition_category_dir scenario_fs\<rparr>"

text \<open>
  Two ICD-9 listings from the docstring's list, in its order: the last one with
  supplemental entries (v22, 2015) and the first one past the cutoff (v21, 2016).
\<close>

definition stale_raw :: rawdir where
  "stale_raw =
     [(''2015/v22/F2213L2P.txt'', [''25000 19'']),
      (''2016/v21/F211690R_ICD9.txt'', [''25000 19''])]"

definition stale_2016 :: frame where
  "stale_2016 =
     \<lparr>fcolumns = [''icd'', ''cc'', ''version'', ''year''],
      frows =
        [[(''icd'', StrC ''25000''), (''cc'', StrC ''19''), (''version'', IntC 9), (''year'', IntC 2016)],
         [(''icd'', StrC ''36202''), (''cc'', IntC 18), (''version'', IntC 9), (''year'', IntC 2015)],
         [(''icd'', StrC ''40403''), (''cc'', IntC 85), (''version'', IntC 9), (''year'', IntC 2015)],
         [(''icd'', StrC ''40413''), (''cc'', IntC 85), (''version'', IntC 9), (''year'', IntC 2015)],
         [(''icd'', StrC ''40493''), (''cc'', IntC 85), (''version'', IntC 9), (''year'', IntC 2015)]]\<rparr>"

text \<open>
  A crosswalk that maps the key (E11.9, 2020, 10) to CC 1 and to CC 2, with the
  scenario's labels and no rule.
\<close>

definition conflict_crosswalk :: frame where
  "conflict_crosswalk =
     \<lparr>fcolumns = [''diag_code'', ''cc'', ''version'', ''year''],
      frows =
        [[(''diag_code'', StrC ''E11.9''), (''cc'', IntC 1), (''version'', IntC 10), (''year'', IntC 2020)],
         [(''diag_code'', StrC ''E11.9''), (''cc'', IntC 2), (''version'', IntC 10), (''year'', IntC 2020)]]\<rparr>"

definition conflict_fs :: filesystem where
  "conflict_fs =
     \<lparr>crosswalks_dir = [(''2020_v22_icd10.csv'', conflict_crosswalk)],
      condition_category_dir = [(''v22_rules.csv'', empty_rules), (''v22_labels.csv'', scenario_labels)]\<rparr>"

definition conflict_out :: matrix where
  "conflict_out =
     \<lparr>mcolumns = [IntC 1, IntC 2, IntC 3],
      mrows =
        [(StrC ''R1'', [(IntC 1, BoolC True), (IntC 2, BoolC True), (IntC 3, BoolC False)]),
         (StrC ''R2'', [(IntC 1, BoolC True), (IntC 2, BoolC True), (IntC 3, BoolC False)])]\<rparr>"

text \<open>The scenario's records after line 37.\<close>

definition scenario_with_year :: frame where
  "scenario_with_year = set_column ''year'' [IntC 2020, IntC 2020, IntC 2020, IntC 2020] scenario_df"

text \<open>
  A v12 and a v22 hierarchy file.  Each has a header line, a rule, and a rule whose
  trigger marker is followed by no digit.
\<close>

definition hierarchy_raw :: rawdir where
  "hierarchy_raw =
     [(''2010/v12/V12H70H.txt'',
         ['' %MACRO V12H70H;'', '' if hcc5=1 then do i=112, 113;hcc(i)=0;end;'',
          '' if hcc then do i=8;hcc(i)=0;end;'']),
      (''2017/v22/V22H79H1.txt'',
         ['' %MACRO V22H79H1;'', '' %SET0(CC=8, HIER=%STR(9 ,10));'', '' %SET0(CC=, HIER=%STR(11));''])]"

definition v12_rules_written :: frame where
  "v12_rules_written =
     \<lparr>fcolumns = [''to_zero'', ''cc''],
      frows = [[(''to_zero'', StrC ''112''), (''cc'', StrC ''5'')],
               [(''to_zero'', StrC '' 113''), (''cc'', StrC ''5'')],
               [(''to_zero'', StrC ''8''), (''cc'', StrC [])]]\<rparr>"

definition v22_rules_written :: frame where
  "v22_rules_written =
     \<lparr>fcolumns = [''to_zero'', ''cc''],
      frows = [[(''to_zero'', StrC ''9 ''), (''cc'', StrC ''8'')],
               [(''to_zero'', StrC ''10''), (''cc'', StrC ''8'')],
               [(''to_zero'', StrC ''11''), (''cc'', StrC [])]]\<rparr>"

section \<open>Auxiliary notions for the proofs\<close>

text \<open>What the loop does to a single row, and to the column labels.\<close>

definition cascade_row :: "hrule list \<Rightarrow> mrow \<Rightarrow> mrow" where
  "cascade_row rs row = fold (\<lambda>r. apply_rule_row (rule_cc r) (rule_to_zero r)) rs row"

definition add_column :: "cell \<Rightarrow> cell list \<Rightarrow> cell list" where
  "add_column s cs = (if s \<in> set cs then cs else cs @ [s])"

definition cascade_columns :: "hrule list \<Rightarrow> cell list \<Rightarrow> cell list" where
  "cascade_columns rs cs = fold (\<lambda>r. add_column (rule_to_zero r)) rs cs"

text \<open>The row has column \<open>c\<close>, and every cell it has under that label is \<open>False\<close>.\<close>

definition all_false :: "cell \<Rightarrow> mrow \<Rightarrow> bool" where
  "all_false c row = (c \<in> fst ` set row \<and> list_all (\<lambda>(k, x). k = c \<longrightarrow> x = BoolC False) row)"

section \<open>One rule on one row\<close>

lemma map_of_relabel:
  "map_of (map (\<lambda>(k, x). (k, if k = c then v else x)) xs) k'
     = (case map_of xs k' of None \<Rightarrow> None | Some x \<Rightarrow> Some (if k' = c then v else x))"
proof (induction xs)
  case Nil
  show ?case by simp
next
  case (Cons a xs)
  obtain k x where a: "a = (k, x)" by (cases a)
  show ?case using Cons.IH by (simp add: a)
qed

lemma map_of_set_cell: "map_of (set_cell c v row) k = (if k = c then Some v else map_of row k)"
proof (cases "c \<in> fst ` set row")
  case True
  then obtain y where "map_of row c = Some y"
    by (metis map_of_eq_None_iff not_Some_eq)
  with True show ?thesis
    by (simp add: set_cell_def map_of_relabel split: option.split)
next
  case False
  then have "map_of row c = None" by (simp add: map_of_eq_None_iff)
  with False show ?thesis
    by (simp add: set_cell_def map_add_def split: option.split)
qed

lemma keys_relabel: "map fst (map (\<lambda>(k, x). (k, if k = c then v else x)) xs) = map fst xs"
  by (induction xs) auto

lemma keys_relabel_set:
  "fst ` set (map (\<lambda>(k, x). (k, if k = c then v else x)) xs) = fst ` set xs"
  using keys_relabel [of c v xs] by (metis list.set_map)

lemma keys_set_cell: "fst ` set (set_cell c v row) = insert c (fst ` set row)"
  unfolding set_cell_def using keys_relabel_set [of c v row] by auto

lemma keys_apply_rule_row: "fst ` set (apply_rule_row t s row) = insert s (fst ` set row)"
  by (auto simp: apply_rule_row_def keys_set_cell)

lemma map_of_apply_rule_row_True:
  "map_of (apply_rule_row t s row) c = Some (BoolC True) \<Longrightarrow> map_of row c = Some (BoolC True)"
  by (auto simp: apply_rule_row_def map_of_set_cell map_add_def split: if_splits option.splits)

lemma map_of_apply_rule_row_False:
  "map_of row c = Some (BoolC False) \<Longrightarrow> map_of (apply_rule_row t s row) c = Some (BoolC False)"
  by (auto simp: apply_rule_row_def map_of_set_cell map_add_def split: if_splits option.splits)

lemma map_of_apply_rule_row_fired:
  "map_of row t = Some (BoolC True) \<Longrightarrow> map_of (apply_rule_row t s row) s = Some (BoolC False)"
  by (simp add: apply_rule_row_def map_of_set_cell)

lemma map_of_apply_rule_row_other:
  "c \<noteq> s \<Longrightarrow> map_of (apply_rule_row t s row) c = map_of row c"
  by (auto simp: apply_rule_row_def map_of_set_cell map_add_def split: option.splits)

lemma map_of_apply_rule_row_idle:
  "map_of row t \<noteq> Some (BoolC True) \<Longrightarrow> s \<in> fst ` set row \<Longrightarrow> apply_rule_row t s row = row"
  by (simp add: apply_rule_row_def)

lemma all_false_set_cell: "all_false s (set_cell s (BoolC False) row)"
proof -
  have "list_all (\<lambda>(k, x). k = s \<longrightarrow> x = BoolC False)
          (map (\<lambda>(k, x). (k, if k = s then BoolC False else x)) xs)" for xs
    by (induction xs) auto
  moreover have "s \<notin> fst ` set row \<Longrightarrow>
      list_all (\<lambda>(k, x). k = s \<longrightarrow> x = BoolC False) row"
    by (force simp: list_all_iff)
  ultimately show ?thesis
    unfolding all_false_def keys_set_cell by (simp add: set_cell_def)
qed

lemma all_false_set_cell_keep:
  assumes "all_false c row"
  shows "all_false c (set_cell s (BoolC False) row)"
proof -
  have "list_all (\<lambda>(k, x). k = c \<longrightarrow> x = BoolC False) xs \<Longrightarrow>
        list_all (\<lambda>(k, x). k = c \<longrightarrow> x = BoolC False)
          (map (\<lambda>(k, x). (k, if k = s then BoolC False else x)) xs)" for xs
    by (induction xs) auto
  with assms show ?thesis
    unfolding all_false_def keys_set_cell by (auto simp: set_cell_def)
qed

lemma all_false_append:
  "all_false c row \<Longrightarrow> s \<notin> fst ` set row \<Longrightarrow> all_false c (row @ [(s, NaN)])"
  by (cases "c = s") (auto simp: all_false_def list_all_iff)


lemma all_false_apply_rule_row: "all_false c row \<Longrightarrow> all_false c (apply_rule_row t s row)"
  by (simp add: apply_rule_row_def all_false_set_cell_keep all_false_append)

lemma all_false_fired:
  "map_of row t = Some (BoolC True) \<Longrightarrow> all_false s (apply_rule_row t s row)"
  by (simp add: apply_rule_row_def all_false_set_cell)

lemma set_cell_all_false: "all_false s row \<Longrightarrow> set_cell s (BoolC False) row = row"
proof -
  assume a: "all_false s row"
  have "list_all (\<lambda>(k, x). k = s \<longrightarrow> x = BoolC False) xs
        \<Longrightarrow> map (\<lambda>(k, x). (k, if k = s then BoolC False else x)) xs = xs" for xs
    by (induction xs) auto
  with a show ?thesis by (simp add: all_false_def set_cell_def)
qed

section \<open>A rule list on one row and on the column labels\<close>

lemma cascade_row_Nil: "cascade_row [] row = row"
  by (simp add: cascade_row_def)

lemma cascade_row_Cons:
  "cascade_row (r # rs) row = cascade_row rs (apply_rule_row (rule_cc r) (rule_to_zero r) row)"
  by (simp add: cascade_row_def)

lemma cascade_row_append: "cascade_row (rs @ rs') row = cascade_row rs' (cascade_row rs row)"
  by (simp add: cascade_row_def)

lemma keys_cascade_row:
  "fst ` set (cascade_row rs row) = fst ` set row \<union> rule_to_zero ` set rs"
  by (induction rs arbitrary: row) (auto simp: cascade_row_Nil cascade_row_Cons keys_apply_rule_row)

lemma cascade_row_True:
  "map_of (cascade_row rs row) c = Some (BoolC True) \<Longrightarrow> map_of row c = Some (BoolC True)"
  by (induction rs arbitrary: row)
     (auto simp: cascade_row_Nil cascade_row_Cons dest: map_of_apply_rule_row_True)

lemma cascade_row_False:
  "map_of row c = Some (BoolC False) \<Longrightarrow> map_of (cascade_row rs row) c = Some (BoolC False)"
  by (induction rs arbitrary: row)
     (auto simp: cascade_row_Nil cascade_row_Cons intro: map_of_apply_rule_row_False)

lemma all_false_cascade_row: "all_false c row \<Longrightarrow> all_false c (cascade_row rs row)"
  by (induction rs arbitrary: row)
     (auto simp: cascade_row_Nil cascade_row_Cons intro: all_false_apply_rule_row)

lemma apply_rule_row_settled:
  assumes "s \<in> fst ` set row"
    and "map_of row t = Some (BoolC True) \<Longrightarrow> all_false s row"
  shows "apply_rule_row t s row = row"
  using assms by (auto simp: apply_rule_row_def set_cell_all_false)

lemma rule_settled_after_cascade:
  assumes "r \<in> set rs"
  shows "apply_rule_row (rule_cc r) (rule_to_zero r) (cascade_row rs row) = cascade_row rs row"
proof -
  from assms obtain rs1 rs2 where rs: "rs = rs1 @ r # rs2"
    by (meson split_list)
  define t where "t = rule_cc r"
  define s where "s = rule_to_zero r"
  define row1 where "row1 = cascade_row rs1 row"
  define row2 where "row2 = apply_rule_row t s row1"
  have fin: "cascade_row rs row = cascade_row rs2 row2"
    by (simp add: rs cascade_row_append cascade_row_Cons row1_def row2_def t_def s_def)
  have "s \<in> fst ` set row2"
    by (simp add: row2_def keys_apply_rule_row)
  then have k: "s \<in> fst ` set (cascade_row rs2 row2)"
    by (simp add: keys_cascade_row)
  have "all_false s (cascade_row rs2 row2)"
    if "map_of (cascade_row rs2 row2) t = Some (BoolC True)"
  proof -
    from that have "map_of row2 t = Some (BoolC True)"
      by (rule cascade_row_True)
    then have "map_of row1 t = Some (BoolC True)"
      unfolding row2_def by (rule map_of_apply_rule_row_True)
    then have "all_false s row2"
      unfolding row2_def by (rule all_false_fired)
    then show ?thesis by (rule all_false_cascade_row)
  qed
  with k have "apply_rule_row t s (cascade_row rs2 row2) = cascade_row rs2 row2"
    by (rule apply_rule_row_settled)
  then show ?thesis by (simp add: fin t_def s_def)
qed

lemma cascade_row_fixed:
  "(\<And>r. r \<in> set rs \<Longrightarrow> apply_rule_row (rule_cc r) (rule_to_zero r) row = row)
   \<Longrightarrow> cascade_row rs row = row"
  by (induction rs) (simp_all add: cascade_row_Nil cascade_row_Cons)

lemma cascade_row_idem: "cascade_row rs (cascade_row rs row) = cascade_row rs row"
  by (rule cascade_row_fixed) (rule rule_settled_after_cascade)

lemma set_add_column: "set (add_column s cs) = insert s (set cs)"
  by (auto simp: add_column_def)

lemma count_add_column: "c \<in> set cs \<Longrightarrow> count_list (add_column s cs) c = count_list cs c"
  by (auto simp: add_column_def)

lemma cascade_columns_Nil: "cascade_columns [] cs = cs"
  by (simp add: cascade_columns_def)

lemma cascade_columns_Cons:
  "cascade_columns (r # rs) cs = cascade_columns rs (add_column (rule_to_zero r) cs)"
  by (simp add: cascade_columns_def)

lemma set_cascade_columns: "set (cascade_columns rs cs) = set cs \<union> rule_to_zero ` set rs"
  by (induction rs arbitrary: cs) (auto simp: cascade_columns_Nil cascade_columns_Cons set_add_column)

lemma count_cascade_columns:
  "c \<in> set cs \<Longrightarrow> count_list (cascade_columns rs cs) c = count_list cs c"
  by (induction rs arbitrary: cs)
     (simp_all add: cascade_columns_Nil cascade_columns_Cons count_add_column set_add_column)

lemma cascade_columns_known: "rule_to_zero ` set rs \<subseteq> set cs \<Longrightarrow> cascade_columns rs cs = cs"
  by (induction rs arbitrary: cs) (auto simp: cascade_columns_Nil cascade_columns_Cons add_column_def)

section \<open>The loop on the matrix\<close>

lemma apply_rule_InrD:
  assumes "apply_rule r m = Inr m'"
  shows "rule_cc r \<in> set (mcolumns m)"
    and "count_list (mcolumns m) (rule_cc r) \<le> 1"
    and "rule_to_zero r \<in> set (mcolumns m) \<or> mrows m \<noteq> []"
    and "mcolumns m' = add_column (rule_to_zero r) (mcolumns m)"
    and "mrows m' = map (\<lambda>(rid, row). (rid, apply_rule_row (rule_cc r) (rule_to_zero r) row)) (mrows m)"
  using assms by (auto simp: apply_rule_def Let_def add_column_def split: if_splits)

lemma apply_rule_InrI:
  assumes "rule_cc r \<in> set (mcolumns m)"
    and "count_list (mcolumns m) (rule_cc r) \<le> 1"
    and "rule_to_zero r \<in> set (mcolumns m) \<or> mrows m \<noteq> []"
  shows "apply_rule r m = Inr \<lparr>mcolumns = add_column (rule_to_zero r) (mcolumns m),
           mrows = map (\<lambda>(rid, row). (rid, apply_rule_row (rule_cc r) (rule_to_zero r) row)) (mrows m)\<rparr>"
  using assms by (auto simp: apply_rule_def Let_def add_column_def)

lemma map_of_map_rows:
  "map_of (map (\<lambda>(rid, row). (rid, f row)) rows) rid = map_option f (map_of rows rid)"
  by (induction rows) auto

lemma cell_at_apply_rule:
  assumes "apply_rule r m = Inr m'"
  shows "cell_at m' rid c =
     (case map_of (mrows m) rid of None \<Rightarrow> None
      | Some row \<Rightarrow> map_of (apply_rule_row (rule_cc r) (rule_to_zero r) row) c)"
  by (simp add: cell_at_def apply_rule_InrD(5) [OF assms] map_of_map_rows split: option.split)

lemma cascade_InrD:
  "cascade rs m = Inr m' \<Longrightarrow>
     mcolumns m' = cascade_columns rs (mcolumns m) \<and>
     mrows m' = map (\<lambda>(rid, row). (rid, cascade_row rs row)) (mrows m)"
proof (induction rs arbitrary: m)
  case Nil
  then show ?case by (simp add: cascade_columns_Nil cascade_row_Nil)
next
  case (Cons r rs)
  from Cons.prems obtain m1 where 1: "apply_rule r m = Inr m1" and 2: "cascade rs m1 = Inr m'"
    by (auto split: sum.splits)
  from Cons.IH [OF 2] apply_rule_InrD(4,5) [OF 1] show ?case
    by (simp add: cascade_columns_Cons cascade_row_Cons case_prod_unfold comp_def)
qed

lemma cell_at_cascade:
  assumes "cascade rs m = Inr m'"
  shows "cell_at m' rid c =
     (case map_of (mrows m) rid of None \<Rightarrow> None | Some row \<Rightarrow> map_of (cascade_row rs row) c)"
  using cascade_InrD [OF assms]
  by (simp add: cell_at_def map_of_map_rows split: option.split)

lemma cascade_append:
  "cascade (rs @ rs') m = (case cascade rs m of Inl e \<Rightarrow> Inl e | Inr m1 \<Rightarrow> cascade rs' m1)"
  by (induction rs arbitrary: m) (auto split: sum.splits)

lemma cascade_fixed: "(\<And>r. r \<in> set rs \<Longrightarrow> apply_rule r m = Inr m) \<Longrightarrow> cascade rs m = Inr m"
  by (induction rs) simp_all

lemma rule_settled_after:
  assumes c: "cascade rs m = Inr m'" and r: "r \<in> set rs"
  shows "apply_rule r m' = Inr m'"
proof -
  from r obtain rs1 rs2 where rs: "rs = rs1 @ r # rs2"
    by (meson split_list)
  from c obtain m1 m2 where 1: "cascade rs1 m = Inr m1" and 2: "apply_rule r m1 = Inr m2"
    and 3: "cascade rs2 m2 = Inr m'"
    by (auto simp: rs cascade_append split: sum.splits)
  note a = apply_rule_InrD [OF 2]
  note d3 = cascade_InrD [OF 3]
  note d = cascade_InrD [OF c]
  have t2: "rule_cc r \<in> set (mcolumns m2)"
    using a(1) by (simp add: a(4) set_add_column)
  have t: "rule_cc r \<in> set (mcolumns m')"
    using t2 d3 by (simp add: set_cascade_columns)
  have "count_list (mcolumns m') (rule_cc r) = count_list (mcolumns m2) (rule_cc r)"
    using t2 d3 by (simp add: count_cascade_columns)
  also have "\<dots> = count_list (mcolumns m1) (rule_cc r)"
    using a(1) by (simp add: a(4) count_add_column)
  finally have n: "count_list (mcolumns m') (rule_cc r) \<le> 1"
    using a(2) by simp
  have s: "rule_to_zero r \<in> set (mcolumns m')"
    using d3 by (simp add: set_cascade_columns a(4) set_add_column)
  have rows: "map (\<lambda>(rid, row). (rid, apply_rule_row (rule_cc r) (rule_to_zero r) row)) (mrows m')
      = mrows m'"
    using d r by (simp add: case_prod_unfold comp_def rule_settled_after_cascade)
  have "add_column (rule_to_zero r) (mcolumns m') = mcolumns m'"
    using s by (simp add: add_column_def)
  with apply_rule_InrI [of r m'] t n s rows show ?thesis by simp
qed

lemma cascade_idem: "cascade rs m = Inr m' \<Longrightarrow> cascade rs m' = Inr m'"
  by (rule cascade_fixed) (rule rule_settled_after)

lemma distinct_count_le_1: "distinct xs \<Longrightarrow> count_list xs x \<le> 1"
  by (induction xs) auto

lemma cascade_returns:
  assumes "\<And>r. r \<in> set rs \<Longrightarrow> rule_cc r \<in> set (mcolumns m) \<and> rule_to_zero r \<in> set (mcolumns m)"
    and "distinct (mcolumns m)"
  shows "\<exists>m'. cascade rs m = Inr m'"
  using assms
proof (induction rs arbitrary: m)
  case Nil
  show ?case by simp
next
  case (Cons r rs)
  have k: "rule_cc r \<in> set (mcolumns m)" "rule_to_zero r \<in> set (mcolumns m)"
    using Cons.prems(1) [of r] by simp_all
  have "count_list (mcolumns m) (rule_cc r) \<le> 1"
    using Cons.prems(2) by (rule distinct_count_le_1)
  from apply_rule_InrI [OF k(1) this] k(2) obtain m1 where 1: "apply_rule r m = Inr m1"
    by blast
  have cols: "mcolumns m1 = mcolumns m"
    using apply_rule_InrD(4) [OF 1] k(2) by (simp add: add_column_def)
  have "\<exists>m'. cascade rs m1 = Inr m'"
    by (rule Cons.IH) (use Cons.prems cols in auto)
  with 1 show ?case by simp
qed

section \<open>The hierarchy loop inside \<open>generate_hccs\<close>\<close>

lemma bind_Inr_iff: "bind x f = Inr y \<longleftrightarrow> (\<exists>v. x = Inr v \<and> f v = Inr y)"
  by (cases x) (simp_all add: bind_def)

lemma apply_hierarchies_Inr:
  "apply_hierarchies h m = Inr m' \<Longrightarrow> cascade (hier_rules h) m = Inr m'"
  by (auto simp: apply_hierarchies_def hier_rules_def Let_def split: list.splits if_splits)

lemma apply_hierarchies_idem:
  "bind (apply_hierarchies h m) (apply_hierarchies h) = apply_hierarchies h m"
proof (cases "apply_hierarchies h m")
  case (Inl e)
  then show ?thesis by (simp add: bind_def)
next
  case (Inr m')
  then have c: "cascade (hier_rules h) m' = Inr m'"
    by (intro cascade_idem apply_hierarchies_Inr)
  have "apply_hierarchies h m' = Inr m'"
  proof (cases "frows h")
    case Nil
    then show ?thesis by (simp add: apply_hierarchies_def)
  next
    case (Cons a list)
    with Inr have "''cc'' \<in> set (fcolumns h)" "''to_zero'' \<in> set (fcolumns h)"
      by (auto simp: apply_hierarchies_def Let_def split: if_splits)
    with Cons c show ?thesis by (simp add: apply_hierarchies_def)
  qed
  with Inr show ?thesis by (simp add: bind_def)
qed

text \<open>
  C5.  Running the loop of lines 53-54 again on its own result changes nothing: for every
  matrix and every rule list, in the stored order, the second pass returns the matrix the
  first pass returned (and a first pass that raised has no result to run again).
\<close>

theorem cascade_twice:
  "bind (cascade rs m) (cascade rs) = cascade rs m \<and>
   bind (apply_hierarchies df_hier m) (apply_hierarchies df_hier) = apply_hierarchies df_hier m"
proof -
  have "bind (cascade rs m) (cascade rs) = cascade rs m"
    by (cases "cascade rs m") (simp_all add: bind_def cascade_idem)
  then show ?thesis by (simp add: apply_hierarchies_idem)
qed

lemma generate_hccs_Inr:
  assumes "fst (generate_hccs fs df v) = Inr out"
  shows "\<exists>df_map df_hier df_list df1 merged pre.
           load_tables fs v = Inr (df_map, df_hier, df_list) \<and> add_year df = Inr df1 \<and>
           snd (generate_hccs fs df v) = df1 \<and>
           join_ccs df1 df_map = Inr merged \<and> truth_table merged df_list = Inr pre \<and>
           presence_matrix fs df v = Inr pre \<and> apply_hierarchies df_hier pre = Inr out"
  using assms
  by (auto simp: generate_hccs_def presence_matrix_def bind_Inr_iff split: sum.splits prod.splits)

lemma cascade_keeps_index: "cascade rs m = Inr m' \<Longrightarrow> map fst (mrows m') = map fst (mrows m)"
  by (drule cascade_InrD) (simp add: case_prod_unfold comp_def)

text \<open>
  C4.  When \<open>generate_hccs\<close> returns, every cell that was \<open>False\<close> in the matrix before
  the hierarchies were applied is \<open>False\<close> in the result, for every recipient and every CC
  column; the recipients are the same, and a cell that is \<open>True\<close> in the result was \<open>True\<close>
  before: the rules set no cell to \<open>True\<close>.
\<close>

theorem suppression_monotone:
  assumes "fst (generate_hccs fs df version) = Inr out"
  shows "\<exists>pre. presence_matrix fs df version = Inr pre \<and>
           map fst (mrows out) = map fst (mrows pre) \<and>
           (\<forall>rid c. cell_at pre rid c = Some (BoolC False) \<longrightarrow> cell_at out rid c = Some (BoolC False)) \<and>
           (\<forall>rid c. cell_at out rid c = Some (BoolC True) \<longrightarrow> cell_at pre rid c = Some (BoolC True))"
proof -
  from generate_hccs_Inr [OF assms] obtain df_hier pre
    where p: "presence_matrix fs df version = Inr pre" and h: "apply_hierarchies df_hier pre = Inr out"
    by blast
  from h have c: "cascade (hier_rules df_hier) pre = Inr out"
    by (rule apply_hierarchies_Inr)
  have 1: "cell_at out rid c = Some (BoolC False)" if "cell_at pre rid c = Some (BoolC False)" for rid c
    using that unfolding cell_at_cascade [OF c]
    by (auto simp: cell_at_def cascade_row_False split: option.splits)
  have 2: "cell_at pre rid c = Some (BoolC True)" if "cell_at out rid c = Some (BoolC True)" for rid c
    using that unfolding cell_at_cascade [OF c]
    by (auto simp: cell_at_def split: option.splits dest: cascade_row_True)
  from p cascade_keeps_index [OF c] 1 2 show ?thesis by blast
qed

lemma scenario_returns: "fst (generate_hccs scenario_fs scenario_df ''v22'') = Inr scenario_out"
  by code_simp

lemma scenario_presence: "presence_matrix scenario_fs scenario_df ''v22'' = Inr scenario_pre"
  by code_simp

theorem suppression_monotone_witness:
  "fst (generate_hccs scenario_fs scenario_df ''v22'') = Inr scenario_out \<and>
   presence_matrix scenario_fs scenario_df ''v22'' = Inr scenario_pre \<and>
   cell_at scenario_pre (StrC ''R2'') (IntC 2) = Some (BoolC False) \<and>
   cell_at scenario_out (StrC ''R2'') (IntC 2) = Some (BoolC False)"
proof -
  from suppression_monotone [OF scenario_returns] obtain pre
    where p: "presence_matrix scenario_fs scenario_df ''v22'' = Inr pre"
      and f: "\<And>rid c. cell_at pre rid c = Some (BoolC False) \<Longrightarrow>
                cell_at scenario_out rid c = Some (BoolC False)"
    by blast
  from p have pre: "pre = scenario_pre"
    by (simp add: scenario_presence)
  have "cell_at scenario_pre (StrC ''R2'') (IntC 2) = Some (BoolC False)"
    by code_simp
  with f [of "StrC ''R2''" "IntC 2"] pre scenario_returns scenario_presence show ?thesis
    by simp
qed

section \<open>The order of the rules\<close>

lemma apply_rule_row_idle_keeps:
  "map_of row t \<noteq> Some (BoolC True) \<Longrightarrow> map_of row c = Some v
   \<Longrightarrow> map_of (apply_rule_row t s row) c = Some v"
  by (auto simp: apply_rule_row_def map_add_def split: option.splits)

lemma cascade_split:
  assumes "cascade (rs1 @ r # rs2) m = Inr m'"
  shows "\<exists>m1 m2. cascade rs1 m = Inr m1 \<and> apply_rule r m1 = Inr m2 \<and> cascade rs2 m2 = Inr m'"
  using assms by (auto simp: cascade_append split: sum.splits)

lemma apply_rule_fires:
  assumes "apply_rule r m1 = Inr m2" and "cell_at m1 rid (rule_cc r) = Some (BoolC True)"
  shows "cell_at m2 rid (rule_to_zero r) = Some (BoolC False)"
  using assms(2) unfolding cell_at_apply_rule [OF assms(1)]
  by (auto simp: cell_at_def map_of_apply_rule_row_fired split: option.splits)

lemma apply_rule_other:
  assumes "apply_rule r m1 = Inr m2" and "c \<noteq> rule_to_zero r"
  shows "cell_at m2 rid c = cell_at m1 rid c"
  unfolding cell_at_apply_rule [OF assms(1)]
  by (simp add: cell_at_def map_of_apply_rule_row_other [OF assms(2)] split: option.splits)

lemma apply_rule_idle:
  assumes "apply_rule r m1 = Inr m2" and "cell_at m1 rid (rule_cc r) \<noteq> Some (BoolC True)"
    and "cell_at m1 rid c = Some v"
  shows "cell_at m2 rid c = Some v"
  using assms(2,3) unfolding cell_at_apply_rule [OF assms(1)]
  by (auto simp: cell_at_def apply_rule_row_idle_keeps split: option.splits)

lemma cascade_keeps_False:
  assumes "cascade rs m = Inr m'" and "cell_at m rid c = Some (BoolC False)"
  shows "cell_at m' rid c = Some (BoolC False)"
  using assms(2) unfolding cell_at_cascade [OF assms(1)]
  by (auto simp: cell_at_def cascade_row_False split: option.splits)

lemma apply_hierarchies_cascade:
  assumes "''cc'' \<in> set (fcolumns h)" and "''to_zero'' \<in> set (fcolumns h)"
  shows "apply_hierarchies h m = cascade (hier_rules h) m"
  using assms by (cases "frows h") (simp_all add: apply_hierarchies_def hier_rules_def)

lemma apply_hierarchies_columns:
  assumes "apply_hierarchies h m = Inr m'" and "frows h \<noteq> []"
  shows "''cc'' \<in> set (fcolumns h) \<and> ''to_zero'' \<in> set (fcolumns h)"
  using assms by (cases "frows h") (auto simp: apply_hierarchies_def Let_def split: if_splits)

lemma hier_rules_rows:
  "hier_rules (h\<lparr>frows := rows\<rparr>) = map (\<lambda>row. Rule (cell_of row ''to_zero'') (cell_of row ''cc'')) rows"
  by (simp add: hier_rules_def)

lemma apply_hierarchies_rows:
  assumes "''cc'' \<in> set (fcolumns h)" and "''to_zero'' \<in> set (fcolumns h)"
  shows "apply_hierarchies (h\<lparr>frows := rows\<rparr>) m
         = cascade (map (\<lambda>row. Rule (cell_of row ''to_zero'') (cell_of row ''cc'')) rows) m"
  using assms by (simp add: apply_hierarchies_cascade hier_rules_rows)

lemma cascade_single: "cascade [r] m = apply_rule r m"
  by (cases "apply_rule r m") simp_all

text \<open>
  C1.  \<open>generate_hccs\<close> applies the rows of the rules table one after the other, in the
  order the table stores them.  Cut the table at any row: the rows before it turn the
  matrix of lines 23-49 into \<open>m1\<close>, the row alone turns \<open>m1\<close> into \<open>m2\<close>, the rows after it
  turn \<open>m2\<close> into the result.  In every recipient row whose trigger cell (the row's \<open>cc\<close>)
  is \<open>True\<close> in \<open>m1\<close>, the suppressed cell (its \<open>to_zero\<close>) is \<open>False\<close> in \<open>m2\<close>; no other
  column changes, and a recipient whose trigger is not \<open>True\<close> keeps its cells.  A later
  row whose trigger is the CC this row suppressed for a recipient finds it \<open>False\<close> and
  leaves that recipient as it is.  The result depends on the stored order: the scenario
  with two chained rules gives another matrix when the same two rows are stored in
  reverse.
\<close>

theorem hierarchy_rows_in_stored_order:
  assumes "fst (generate_hccs fs df version) = Inr out"
    and "load_tables fs version = Inr (df_map, df_hier, df_list)"
    and "frows df_hier = rows1 @ row # rows2"
  shows "(\<exists>pre m1 m2.
           presence_matrix fs df version = Inr pre \<and>
           apply_hierarchies (df_hier\<lparr>frows := rows1\<rparr>) pre = Inr m1 \<and>
           apply_hierarchies (df_hier\<lparr>frows := [row]\<rparr>) m1 = Inr m2 \<and>
           apply_hierarchies (df_hier\<lparr>frows := rows2\<rparr>) m2 = Inr out \<and>
           (\<forall>rid. cell_at m1 rid (cell_of row ''cc'') = Some (BoolC True) \<longrightarrow>
                  cell_at m2 rid (cell_of row ''to_zero'') = Some (BoolC False)) \<and>
           (\<forall>rid c. c \<noteq> cell_of row ''to_zero'' \<longrightarrow> cell_at m2 rid c = cell_at m1 rid c) \<and>
           (\<forall>rid c v. cell_at m1 rid (cell_of row ''cc'') \<noteq> Some (BoolC True) \<longrightarrow>
                  cell_at m1 rid c = Some v \<longrightarrow> cell_at m2 rid c = Some v) \<and>
           (\<forall>rid rows3 row' rows4 m3 m4.
                  cell_at m1 rid (cell_of row ''cc'') = Some (BoolC True) \<longrightarrow>
                  rows2 = rows3 @ row' # rows4 \<longrightarrow> cell_of row' ''cc'' = cell_of row ''to_zero'' \<longrightarrow>
                  apply_hierarchies (df_hier\<lparr>frows := rows3\<rparr>) m2 = Inr m3 \<longrightarrow>
                  apply_hierarchies (df_hier\<lparr>frows := [row']\<rparr>) m3 = Inr m4 \<longrightarrow>
                  (\<forall>c v. cell_at m3 rid c = Some v \<longrightarrow> cell_at m4 rid c = Some v))) \<and>
         fst (generate_hccs chain_fs scenario_df ''v22'') = Inr scenario_out \<and>
         fst (generate_hccs chain_rev_fs scenario_df ''v22'') = Inr chain_rev_out \<and>
         scenario_out \<noteq> chain_rev_out"
proof -
  let ?mk = "\<lambda>row. Rule (cell_of row ''to_zero'') (cell_of row ''cc'')"
  from generate_hccs_Inr [OF assms(1)] assms(2) obtain pre
    where p: "presence_matrix fs df version = Inr pre" and h: "apply_hierarchies df_hier pre = Inr out"
    by auto
  from assms(3) have ne: "frows df_hier \<noteq> []" by simp
  from apply_hierarchies_columns [OF h ne]
  have cols: "''cc'' \<in> set (fcolumns df_hier)" "''to_zero'' \<in> set (fcolumns df_hier)"
    by simp_all
  note ah = apply_hierarchies_rows [OF cols]
  from h have "cascade (map ?mk rows1 @ ?mk row # map ?mk rows2) pre = Inr out"
    by (simp add: apply_hierarchies_cascade [OF cols] hier_rules_def assms(3))
  from cascade_split [OF this] obtain m1 m2
    where 1: "cascade (map ?mk rows1) pre = Inr m1" and 2: "apply_rule (?mk row) m1 = Inr m2"
      and 3: "cascade (map ?mk rows2) m2 = Inr out"
    by blast
  have a1: "apply_hierarchies (df_hier\<lparr>frows := rows1\<rparr>) pre = Inr m1"
    by (simp add: ah 1)
  have a2: "apply_hierarchies (df_hier\<lparr>frows := [row]\<rparr>) m1 = Inr m2"
    by (simp add: ah 2 split: sum.splits)
  have a3: "apply_hierarchies (df_hier\<lparr>frows := rows2\<rparr>) m2 = Inr out"
    by (simp add: ah 3)
  have fire: "cell_at m2 rid (cell_of row ''to_zero'') = Some (BoolC False)"
    if "cell_at m1 rid (cell_of row ''cc'') = Some (BoolC True)" for rid
    using apply_rule_fires [OF 2, of rid] that by simp
  have other: "cell_at m2 rid c = cell_at m1 rid c" if "c \<noteq> cell_of row ''to_zero''" for rid c
    using apply_rule_other [OF 2, of c rid] that by simp
  have idle: "cell_at m2 rid c = Some v"
    if "cell_at m1 rid (cell_of row ''cc'') \<noteq> Some (BoolC True)" "cell_at m1 rid c = Some v" for rid c v
    using apply_rule_idle [OF 2, of rid c v] that by simp
  have later: "cell_at m4 rid c = Some v"
    if t: "cell_at m1 rid (cell_of row ''cc'') = Some (BoolC True)"
      and e: "cell_of row' ''cc'' = cell_of row ''to_zero''"
      and s3: "apply_hierarchies (df_hier\<lparr>frows := rows3\<rparr>) m2 = Inr m3"
      and s4: "apply_hierarchies (df_hier\<lparr>frows := [row']\<rparr>) m3 = Inr m4"
      and v: "cell_at m3 rid c = Some v"
    for rid rows3 row' m3 m4 c v
  proof -
    from s3 have c3: "cascade (map ?mk rows3) m2 = Inr m3"
      by (simp add: ah)
    from s4 have c4: "apply_rule (?mk row') m3 = Inr m4"
      by (simp add: ah split: sum.splits)
    from cascade_keeps_False [OF c3 fire [OF t]] e
    have "cell_at m3 rid (rule_cc (?mk row')) \<noteq> Some (BoolC True)"
      by simp
    from apply_rule_idle [OF c4 this v] show ?thesis .
  qed
  have c1: "fst (generate_hccs chain_fs scenario_df ''v22'') = Inr scenario_out"
    by code_simp
  have c2: "fst (generate_hccs chain_rev_fs scenario_df ''v22'') = Inr chain_rev_out"
    by code_simp
  have c3: "scenario_out \<noteq> chain_rev_out"
    by code_simp
  from p a1 a2 a3 fire other idle later c1 c2 c3 show ?thesis by blast
qed

theorem hierarchy_rows_in_stored_order_witness:
  "fst (generate_hccs chain_fs scenario_df ''v22'') = Inr scenario_out \<and>
   load_tables chain_fs ''v22'' = Inr (scenario_crosswalk, chain_hier, scenario_labels) \<and>
   frows chain_hier
     = [] @ [(''to_zero'', IntC 2), (''cc'', IntC 1)] # [[(''to_zero'', IntC 3), (''cc'', IntC 2)]] \<and>
   presence_matrix chain_fs scenario_df ''v22'' = Inr scenario_pre \<and>
   cell_at scenario_pre (StrC ''R1'') (IntC 1) = Some (BoolC True) \<and>
   cell_at scenario_pre (StrC ''R1'') (IntC 2) = Some (BoolC True) \<and>
   cell_at scenario_pre (StrC ''R1'') (IntC 3) = Some (BoolC True) \<and>
   cell_at scenario_out (StrC ''R1'') (IntC 3) = Some (BoolC True)"
proof -
  let ?r1 = "[(''to_zero'', IntC 2), (''cc'', IntC 1)]" and ?r2 = "[(''to_zero'', IntC 3), (''cc'', IntC 2)]"
  let ?rid = "StrC ''R1''"
  have g: "fst (generate_hccs chain_fs scenario_df ''v22'') = Inr scenario_out"
    by code_simp
  have l: "load_tables chain_fs ''v22'' = Inr (scenario_crosswalk, chain_hier, scenario_labels)"
    by code_simp
  have f: "frows chain_hier = [] @ ?r1 # [?r2]"
    by (simp add: chain_hier_def)
  have p: "presence_matrix chain_fs scenario_df ''v22'' = Inr scenario_pre"
    by code_simp
  have t1: "cell_at scenario_pre ?rid (IntC 1) = Some (BoolC True)"
    and t2: "cell_at scenario_pre ?rid (IntC 2) = Some (BoolC True)"
    and t3: "cell_at scenario_pre ?rid (IntC 3) = Some (BoolC True)"
    by code_simp+
  from hierarchy_rows_in_stored_order [OF g l f, THEN conjunct1] obtain pre m1 m2
    where 0: "presence_matrix chain_fs scenario_df ''v22'' = Inr pre"
      and 1: "apply_hierarchies (chain_hier\<lparr>frows := []\<rparr>) pre = Inr m1"
      and 3: "apply_hierarchies (chain_hier\<lparr>frows := [?r2]\<rparr>) m2 = Inr scenario_out"
      and fire: "\<forall>rid. cell_at m1 rid (cell_of ?r1 ''cc'') = Some (BoolC True) \<longrightarrow>
                  cell_at m2 rid (cell_of ?r1 ''to_zero'') = Some (BoolC False)"
      and other: "\<forall>rid c. c \<noteq> cell_of ?r1 ''to_zero'' \<longrightarrow> cell_at m2 rid c = cell_at m1 rid c"
      and later: "\<forall>rid rows3 row' rows4 m3 m4.
                  cell_at m1 rid (cell_of ?r1 ''cc'') = Some (BoolC True) \<longrightarrow>
                  [?r2] = rows3 @ row' # rows4 \<longrightarrow> cell_of row' ''cc'' = cell_of ?r1 ''to_zero'' \<longrightarrow>
                  apply_hierarchies (chain_hier\<lparr>frows := rows3\<rparr>) m2 = Inr m3 \<longrightarrow>
                  apply_hierarchies (chain_hier\<lparr>frows := [row']\<rparr>) m3 = Inr m4 \<longrightarrow>
                  (\<forall>c v. cell_at m3 rid c = Some v \<longrightarrow> cell_at m4 rid c = Some v)"
    by (elim conjE exE)
  from 0 p have pre: "pre = scenario_pre" by simp
  from 1 have m1: "m1 = scenario_pre"
    by (simp add: apply_hierarchies_def pre)
  have k: "cell_of ?r1 ''cc'' = IntC 1" "cell_of ?r1 ''to_zero'' = IntC 2" "cell_of ?r2 ''cc'' = IntC 2"
    by (simp_all add: cell_of_def)
  have "cell_at m2 ?rid (IntC 3) = Some (BoolC True)"
    using other [rule_format, of "IntC 3" ?rid] t3 by (simp add: m1 k)
  moreover have "apply_hierarchies (chain_hier\<lparr>frows := []\<rparr>) m2 = Inr m2"
    by (simp add: apply_hierarchies_def)
  ultimately have "cell_at scenario_out ?rid (IntC 3) = Some (BoolC True)"
    using later [rule_format, of ?rid "[]" ?r2 "[]" m2 scenario_out "IntC 3" "BoolC True"] t1 3
    by (simp add: m1 k)
  with g l f p t1 t2 t3 show ?thesis by simp
qed

section \<open>The columns of the result\<close>

lemma keys_set_cell_list: "map fst (set_cell c v row) = add_column c (map fst row)"
  by (simp add: set_cell_def add_column_def keys_relabel image_iff del: map_map)

lemma keys_apply_rule_row_list: "map fst (apply_rule_row t s row) = add_column s (map fst row)"
  by (simp add: apply_rule_row_def keys_set_cell_list) (simp add: add_column_def)

lemma keys_cascade_row_list: "map fst (cascade_row rs row) = cascade_columns rs (map fst row)"
  by (induction rs arbitrary: row)
     (simp_all add: cascade_row_Nil cascade_row_Cons cascade_columns_Nil cascade_columns_Cons
        keys_apply_rule_row_list)

lemma truth_table_Inr:
  assumes "truth_table merged df_list = Inr pre"
  shows "mcolumns pre = cc_universe df_list"
    and "\<And>rid row. (rid, row) \<in> set (mrows pre) \<Longrightarrow> map fst row = cc_universe df_list"
  using assms by (auto simp: truth_table_def Let_def comp_def split: if_splits)

lemma generate_hccs_tables:
  assumes "fst (generate_hccs fs df v) = Inr out"
    and "load_tables fs v = Inr (df_map, df_hier, df_list)"
  shows "\<exists>merged pre. truth_table merged df_list = Inr pre \<and> cascade (hier_rules df_hier) pre = Inr out"
  using generate_hccs_Inr [OF assms(1)] assms(2) by (auto dest: apply_hierarchies_Inr)

text \<open>
  C3, amended.  When \<open>generate_hccs\<close> returns, every row of the result carries exactly
  the columns of the result, and these are the CC ids of the version's labels table
  together with the \<open>to_zero\<close> ids of its rules table.  So the columns are exactly the
  labels table's CC ids, in its order, whenever every \<open>to_zero\<close> id of the rules table is
  a CC id of the labels table; a rule that zeroes an id outside the table adds a column.
\<close>

theorem output_columns:
  assumes "fst (generate_hccs fs df version) = Inr out"
    and "load_tables fs version = Inr (df_map, df_hier, df_list)"
  shows "(\<forall>(rid, row) \<in> set (mrows out). map fst row = mcolumns out) \<and>
         set (mcolumns out) = set (cc_universe df_list) \<union> rule_to_zero ` set (hier_rules df_hier) \<and>
         (rule_to_zero ` set (hier_rules df_hier) \<subseteq> set (cc_universe df_list) \<longrightarrow>
            mcolumns out = cc_universe df_list)"
proof -
  from generate_hccs_tables [OF assms] obtain merged pre
    where t: "truth_table merged df_list = Inr pre" and c: "cascade (hier_rules df_hier) pre = Inr out"
    by blast
  note d = cascade_InrD [OF c]
  note p = truth_table_Inr [OF t]
  have cols: "mcolumns out = cascade_columns (hier_rules df_hier) (cc_universe df_list)"
    using d p(1) by simp
  have "map fst row = mcolumns out" if "(rid, row) \<in> set (mrows out)" for rid row
  proof -
    from that d obtain row0 where "(rid, row0) \<in> set (mrows pre)"
      and "row = cascade_row (hier_rules df_hier) row0"
      by auto
    with p(2) cols show ?thesis by (simp add: keys_cascade_row_list)
  qed
  moreover have "set (mcolumns out) = set (cc_universe df_list) \<union> rule_to_zero ` set (hier_rules df_hier)"
    by (simp add: cols set_cascade_columns)
  moreover have "mcolumns out = cc_universe df_list"
    if "rule_to_zero ` set (hier_rules df_hier) \<subseteq> set (cc_universe df_list)"
    using that by (simp add: cols cascade_columns_known)
  ultimately show ?thesis by blast
qed

lemma scenario_tables:
  "load_tables scenario_fs ''v22'' = Inr (scenario_crosswalk, scenario_rules, scenario_labels)"
  by code_simp

theorem output_columns_witness:
  "fst (generate_hccs scenario_fs scenario_df ''v22'') = Inr scenario_out \<and>
   load_tables scenario_fs ''v22'' = Inr (scenario_crosswalk, scenario_rules, scenario_labels) \<and>
   rule_to_zero ` set (hier_rules scenario_rules) \<subseteq> set (cc_universe scenario_labels) \<and>
   mcolumns scenario_out = cc_universe scenario_labels \<and>
   list_all (\<lambda>(rid, row). map fst row = cc_universe scenario_labels) (mrows scenario_out)"
proof -
  have s: "rule_to_zero ` set (hier_rules scenario_rules) \<subseteq> set (cc_universe scenario_labels)"
    by (simp add: hier_rules_def cc_universe_def scenario_rules_def scenario_labels_def cell_of_def)
  from output_columns [OF scenario_returns scenario_tables] s
  have a: "\<forall>(rid, row) \<in> set (mrows scenario_out). map fst row = mcolumns scenario_out"
    and b: "mcolumns scenario_out = cc_universe scenario_labels"
    by blast+
  from a b have "list_all (\<lambda>(rid, row). map fst row = cc_universe scenario_labels) (mrows scenario_out)"
    by (simp add: list_all_iff)
  with scenario_returns scenario_tables s b show ?thesis by blast
qed

theorem output_columns_counterexample:
  "fst (generate_hccs extra_fs scenario_df ''v22'') = Inr extra_out \<and>
   cc_universe scenario_labels = [IntC 1, IntC 2, IntC 3] \<and>
   mcolumns extra_out = [IntC 1, IntC 2, IntC 3, IntC 9]"
  by code_simp

section \<open>The caller's frame\<close>

lemma sequence_Inr_length: "sequence xs = Inr ys \<Longrightarrow> length ys = length xs"
  by (induction xs arbitrary: ys) (auto split: sum.splits)

lemma cell_of_set_cell: "cell_of (set_cell k v row) c = (if c = k then v else cell_of row c)"
  by (simp add: cell_of_def map_of_set_cell)

lemma get_column_set_column_other:
  assumes "c \<noteq> name" and "length vals = length (frows f)"
  shows "get_column c (set_column name vals f) = get_column c f"
proof -
  have "map (\<lambda>row. cell_of row c) (map (\<lambda>(row, v). set_cell name v row) (zip rows vs))
        = map (\<lambda>row. cell_of row c) rows" if "length vs = length rows" for rows vs
    using that assms(1) by (induction rows vs rule: list_induct2') (simp_all add: cell_of_set_cell)
  with assms show ?thesis by (simp add: get_column_def set_column_def)
qed

lemma get_column_set_column_same:
  assumes "length vals = length (frows f)"
  shows "get_column name (set_column name vals f) = Inr vals"
proof -
  have "map (\<lambda>row. cell_of row name) (map (\<lambda>(row, v). set_cell name v row) (zip rows vs)) = vs"
    if "length vs = length rows" for rows vs
    using that by (induction rows vs rule: list_induct2') (simp_all add: cell_of_set_cell)
  with assms show ?thesis by (simp add: get_column_def set_column_def)
qed

text \<open>
  C6, amended.  When \<open>generate_hccs\<close> returns, the caller's frame has been changed in one
  way: it has a column \<open>year\<close>, holding the calendar year of each row's \<open>claim_date\<close>.
  Every other column is there as before, with the same values, and no row was added or
  removed.  So the frame differs from the one passed in whenever that one did not hold
  this very column already, as when it has no \<open>year\<close> column at all.
\<close>

theorem caller_frame_gets_year:
  assumes "fst (generate_hccs fs df version) = Inr out"
  shows "\<exists>dates years.
           get_column ''claim_date'' df = Inr dates \<and> sequence (map dt_year dates) = Inr years \<and>
           snd (generate_hccs fs df version) = set_column ''year'' years df \<and>
           get_column ''year'' (snd (generate_hccs fs df version)) = Inr years \<and>
           length (frows (snd (generate_hccs fs df version))) = length (frows df) \<and>
           (\<forall>c. c \<noteq> ''year'' \<longrightarrow>
                get_column c (snd (generate_hccs fs df version)) = get_column c df) \<and>
           (get_column ''year'' df \<noteq> Inr years \<longrightarrow> snd (generate_hccs fs df version) \<noteq> df)"
proof -
  from generate_hccs_Inr [OF assms] obtain df1
    where a: "add_year df = Inr df1" and s: "snd (generate_hccs fs df version) = df1"
    by blast
  from a obtain dates years
    where d: "get_column ''claim_date'' df = Inr dates"
      and y: "sequence (map dt_year dates) = Inr years"
      and df1: "df1 = set_column ''year'' years df"
    by (auto simp: add_year_def bind_Inr_iff)
  from d have "length dates = length (frows df)"
    by (auto simp: get_column_def split: if_splits)
  with sequence_Inr_length [OF y] have len: "length years = length (frows df)"
    by simp
  have n: "length (frows df1) = length (frows df)"
    using len by (simp add: df1 set_column_def)
  have g: "get_column ''year'' df1 = Inr years"
    unfolding df1 by (rule get_column_set_column_same [OF len])
  have o: "get_column c df1 = get_column c df" if "c \<noteq> ''year''" for c
    unfolding df1 using that by (rule get_column_set_column_other [OF _ len])
  have i: "df1 \<noteq> df" if "get_column ''year'' df \<noteq> Inr years"
    using that g by auto
  from d y s df1 n g o i show ?thesis by auto
qed

theorem caller_frame_gets_year_witness:
  "fst (generate_hccs scenario_fs scenario_df ''v22'') = Inr scenario_out \<and>
   get_column ''year'' scenario_df = Inl (KeyError (StrC ''year'')) \<and>
   get_column ''year'' (snd (generate_hccs scenario_fs scenario_df ''v22''))
     = Inr [IntC 2020, IntC 2020, IntC 2020, IntC 2020] \<and>
   get_column ''diag_code'' (snd (generate_hccs scenario_fs scenario_df ''v22''))
     = get_column ''diag_code'' scenario_df \<and>
   snd (generate_hccs scenario_fs scenario_df ''v22'') \<noteq> scenario_df"
proof -
  from caller_frame_gets_year [OF scenario_returns] obtain dates years
    where d: "get_column ''claim_date'' scenario_df = Inr dates"
      and y: "sequence (map dt_year dates) = Inr years"
      and g: "get_column ''year'' (snd (generate_hccs scenario_fs scenario_df ''v22'')) = Inr years"
      and o: "\<forall>c. c \<noteq> ''year'' \<longrightarrow>
                get_column c (snd (generate_hccs scenario_fs scenario_df ''v22'')) = get_column c scenario_df"
      and i: "get_column ''year'' scenario_df \<noteq> Inr years \<longrightarrow>
                snd (generate_hccs scenario_fs scenario_df ''v22'') \<noteq> scenario_df"
    by (elim exE conjE)
  have "get_column ''claim_date'' scenario_df
        = Inr [DateC 2020 3 1, DateC 2020 4 1, DateC 2020 5 1, DateC 2020 1 1]"
    by code_simp
  with d have "dates = [DateC 2020 3 1, DateC 2020 4 1, DateC 2020 5 1, DateC 2020 1 1]"
    by simp
  with y have ys: "years = [IntC 2020, IntC 2020, IntC 2020, IntC 2020]"
    by (simp add: dt_year_def)
  have k: "get_column ''year'' scenario_df = Inl (KeyError (StrC ''year''))"
    by code_simp
  with i have "snd (generate_hccs scenario_fs scenario_df ''v22'') \<noteq> scenario_df"
    by simp
  with g o [rule_format, of "''diag_code''"] scenario_returns ys k show ?thesis
    by simp
qed

theorem caller_frame_counterexample:
  "fst (generate_hccs scenario_fs scenario_df ''v22'') = Inr scenario_out \<and>
   fcolumns scenario_df = [''recip_id'', ''diag_code'', ''version'', ''claim_date''] \<and>
   fcolumns (snd (generate_hccs scenario_fs scenario_df ''v22''))
     = [''recip_id'', ''diag_code'', ''version'', ''claim_date'', ''year''] \<and>
   snd (generate_hccs scenario_fs scenario_df ''v22'') \<noteq> scenario_df"
  by code_simp

section \<open>Empty reference tables\<close>

lemma sequence_Nil_iff: "sequence xs = Inr [] \<longleftrightarrow> xs = []"
  by (cases xs) (auto split: sum.splits)

lemma load_tables_no_crosswalk:
  assumes "filter (\<lambda>file. contains file version) (map fst (crosswalks_dir fs)) = []"
  shows "load_tables fs version = Inl ValueError"
  using assms by (simp add: load_tables_def bind_def concat_frames_def)

lemma cascade_no_columns: "mcolumns m = [] \<Longrightarrow> rs \<noteq> [] \<Longrightarrow> \<exists>e. cascade rs m = Inl e"
  by (cases rs) (simp_all add: apply_rule_def Let_def)

text \<open>
  C9, amended.  When no file name in \<open>Crosswalks\<close> contains the version, \<open>generate_hccs\<close>
  raises ValueError (\<open>pd.concat\<close> of an empty list) and leaves the caller's frame alone.
  An empty labels table is not checked for: the call then raises only when the rules
  table has a row (its trigger is no column); with a rules table without rows, a call
  that returns gives a matrix without any column.
\<close>

theorem empty_reference_tables:
  "(filter (\<lambda>file. contains file version) (map fst (crosswalks_dir fs)) = [] \<longrightarrow>
      generate_hccs fs df version = (Inl ValueError, df)) \<and>
   (load_tables fs version = Inr (df_map, df_hier, df_list) \<longrightarrow> frows df_list = [] \<longrightarrow>
      frows df_hier \<noteq> [] \<longrightarrow> (\<exists>e. fst (generate_hccs fs df version) = Inl e)) \<and>
   (load_tables fs version = Inr (df_map, df_hier, df_list) \<longrightarrow> frows df_list = [] \<longrightarrow>
      frows df_hier = [] \<longrightarrow> fst (generate_hccs fs df version) = Inr out \<longrightarrow> mcolumns out = [])"
proof (intro conjI impI)
  assume "filter (\<lambda>file. contains file version) (map fst (crosswalks_dir fs)) = []"
  then show "generate_hccs fs df version = (Inl ValueError, df)"
    by (simp add: generate_hccs_def load_tables_no_crosswalk)
next
  assume l: "load_tables fs version = Inr (df_map, df_hier, df_list)"
    and e: "frows df_list = []" and h: "frows df_hier \<noteq> []"
  show "\<exists>e. fst (generate_hccs fs df version) = Inl e"
  proof (cases "fst (generate_hccs fs df version)")
    case (Inl a)
    then show ?thesis by simp
  next
    case (Inr out)
    from generate_hccs_Inr [OF Inr] l obtain merged pre
      where t: "truth_table merged df_list = Inr pre" and a: "apply_hierarchies df_hier pre = Inr out"
      by auto
    from t e have "mcolumns pre = []"
      by (auto simp: truth_table_def Let_def cc_universe_def split: if_splits)
    moreover from h have "hier_rules df_hier \<noteq> []"
      by (simp add: hier_rules_def)
    ultimately obtain err where "cascade (hier_rules df_hier) pre = Inl err"
      using cascade_no_columns by blast
    with apply_hierarchies_Inr [OF a] show ?thesis by simp
  qed
next
  assume l: "load_tables fs version = Inr (df_map, df_hier, df_list)"
    and e: "frows df_list = []" and h: "frows df_hier = []"
    and r: "fst (generate_hccs fs df version) = Inr out"
  from generate_hccs_Inr [OF r] l obtain merged pre
    where t: "truth_table merged df_list = Inr pre" and a: "apply_hierarchies df_hier pre = Inr out"
    by auto
  from t e have "mcolumns pre = []"
    by (auto simp: truth_table_def Let_def cc_universe_def split: if_splits)
  moreover from a h have "out = pre"
    by (simp add: apply_hierarchies_def)
  ultimately show "mcolumns out = []" by simp
qed

theorem empty_reference_tables_witness:
  "filter (\<lambda>file. contains file ''v12'') (map fst (crosswalks_dir scenario_fs)) = [] \<and>
   generate_hccs scenario_fs scenario_df ''v12'' = (Inl ValueError, scenario_df) \<and>
   load_tables degenerate_fs ''v22'' = Inr (scenario_crosswalk, empty_rules, empty_labels) \<and>
   frows empty_labels = [] \<and> frows empty_rules = [] \<and>
   fst (generate_hccs degenerate_fs scenario_df ''v22'') = Inr degenerate_out \<and>
   mcolumns degenerate_out = [] \<and>
   load_tables norows_fs ''v22'' = Inr (scenario_crosswalk, scenario_rules, empty_labels) \<and>
   frows scenario_rules \<noteq> [] \<and>
   (\<exists>e. fst (generate_hccs norows_fs scenario_df ''v22'') = Inl e)"
proof -
  have 1: "filter (\<lambda>file. contains file ''v12'') (map fst (crosswalks_dir scenario_fs)) = []"
    by code_simp
  have 2: "load_tables degenerate_fs ''v22'' = Inr (scenario_crosswalk, empty_rules, empty_labels)"
    by code_simp
  have 3: "frows empty_labels = []" "frows empty_rules = []" "frows scenario_rules \<noteq> []"
    by (simp_all add: empty_labels_def empty_rules_def scenario_rules_def)
  have 4: "fst (generate_hccs degenerate_fs scenario_df ''v22'') = Inr degenerate_out"
    by code_simp
  have 5: "load_tables norows_fs ''v22'' = Inr (scenario_crosswalk, scenario_rules, empty_labels)"
    by code_simp
  from empty_reference_tables [where version = "''v12''" and fs = scenario_fs
      and df = scenario_df, THEN conjunct1] 1
  have a: "generate_hccs scenario_fs scenario_df ''v12'' = (Inl ValueError, scenario_df)"
    by simp
  from empty_reference_tables [where version = "''v22''" and fs = norows_fs and df = scenario_df
      and df_map = scenario_crosswalk and df_hier = scenario_rules and df_list = empty_labels,
      THEN conjunct2, THEN conjunct1] 5 3
  have b: "\<exists>e. fst (generate_hccs norows_fs scenario_df ''v22'') = Inl e"
    by simp
  from empty_reference_tables [where version = "''v22''" and fs = degenerate_fs
      and df = scenario_df and df_map = scenario_crosswalk and df_hier = empty_rules
      and df_list = empty_labels and out = degenerate_out, THEN conjunct2, THEN conjunct2] 2 3 4
  have c: "mcolumns degenerate_out = []"
    by simp
  from 1 2 3 4 5 a b c show ?thesis by simp
qed

theorem empty_reference_tables_counterexample:
  "cc_universe empty_labels = [] \<and>
   load_tables degenerate_fs ''v22'' = Inr (scenario_crosswalk, empty_rules, empty_labels) \<and>
   fst (generate_hccs degenerate_fs scenario_df ''v22'') = Inr degenerate_out \<and>
   degenerate_out = \<lparr>mcolumns = [], mrows = [(StrC ''R1'', []), (StrC ''R2'', [])]\<rparr>"
  by code_simp

section \<open>The lines behind the rules table\<close>

lemma explode_rows:
  assumes "explode df = Inr rules"
  shows "frows rules = concat (map (\<lambda>(c, z). case (c, z) of
            (Some condition, Some zeros) \<Rightarrow> rule_rows condition zeros | _ \<Rightarrow> []) df)"
proof -
  have "concat (map (\<lambda>(c, z). case (c, z) of
            (Some condition, Some zeros) \<Rightarrow> rule_rows condition zeros | _ \<Rightarrow> [])
          (filter (\<lambda>(c, z). c \<noteq> None \<and> z \<noteq> None) xs))
      = concat (map (\<lambda>(c, z). case (c, z) of
            (Some condition, Some zeros) \<Rightarrow> rule_rows condition zeros | _ \<Rightarrow> []) xs)" for xs
    by (induction xs) (auto split: option.splits)
  with assms show ?thesis
    by (auto simp: explode_def Let_def split: if_splits)
qed

lemma explode_drop:
  assumes "c = None \<or> z = None"
  shows "explode (xs @ (c, z) # ys) = explode (xs @ ys)"
  using assms by (auto simp: explode_def Let_def)

lemma explode_all_null:
  assumes "\<And>p. p \<in> set df \<Longrightarrow> fst p = None \<or> snd p = None"
  shows "explode df = Inl ValueError"
proof -
  have "filter (\<lambda>(c, z). c \<noteq> None \<and> z \<noteq> None) df = []"
    using assms by (fastforce simp: filter_empty_conv)
  then show ?thesis by (simp add: explode_def)
qed

lemma line_condition_no_logic: "line_logic g text = None \<Longrightarrow> line_condition g text = None"
  by (simp add: line_condition_def)

lemma file_rules_rows:
  assumes "file_rules g ls = Inr rules"
  shows "frows rules = concat (map (line_rules g) ls)"
proof -
  from assms obtain df where d: "logic_frame g ls = Inr df" and e: "explode df = Inr rules"
    by (auto simp: file_rules_def bind_Inr_iff)
  from d have "df = map (\<lambda>text. (line_condition g text, line_zeros g text)) ls"
    by (auto simp: logic_frame_def split: if_splits)
  with explode_rows [OF e] show ?thesis
    by (simp add: comp_def line_rules_def [abs_def])
qed

lemma logic_frame_anchored:
  "\<not> list_all (\<lambda>t. line_logic g t = None) ls
   \<Longrightarrow> logic_frame g ls = Inr (map (\<lambda>t. (line_condition g t, line_zeros g t)) ls)"
  by (simp add: logic_frame_def)

lemma file_rules_discard:
  assumes "line_condition g text = None \<or> line_zeros g text = None"
  shows "file_rules g (ls1 @ text # ls2) = file_rules g (ls1 @ ls2)"
proof (cases "list_all (\<lambda>t. line_logic g t = None) (ls1 @ ls2)")
  case True
  let ?df = "map (\<lambda>t. (line_condition g t, line_zeros g t)) (ls1 @ text # ls2)"
  have r: "file_rules g (ls1 @ ls2) = Inl ValueError"
    using True by (simp add: file_rules_def logic_frame_def bind_def)
  have "fst p = None \<or> snd p = None" if "p \<in> set ?df" for p
  proof -
    from that obtain t where t: "t \<in> set (ls1 @ text # ls2)" and p: "p = (line_condition g t, line_zeros g t)"
      by auto
    show ?thesis
    proof (cases "t = text")
      case True
      with assms p show ?thesis
        by auto
    next
      case False
      with t \<open>list_all (\<lambda>t. line_logic g t = None) (ls1 @ ls2)\<close> have "line_logic g t = None"
        by (auto simp: list_all_iff)
      with p show ?thesis by (simp add: line_condition_no_logic)
    qed
  qed
  then have "explode ?df = Inl ValueError"
    by (rule explode_all_null)
  then have "file_rules g (ls1 @ text # ls2) = Inl ValueError"
    by (simp add: file_rules_def logic_frame_def bind_def)
  with r show ?thesis by simp
next
  case False
  let ?f = "\<lambda>t. (line_condition g t, line_zeros g t)"
  from False have "\<not> list_all (\<lambda>t. line_logic g t = None) (ls1 @ text # ls2)"
    by (auto simp: list_all_iff)
  then have "logic_frame g (ls1 @ text # ls2) = Inr (map ?f (ls1 @ text # ls2))"
    by (rule logic_frame_anchored)
  then have "file_rules g (ls1 @ text # ls2) = explode (map ?f ls1 @ ?f text # map ?f ls2)"
    by (simp add: file_rules_def bind_def)
  also have "\<dots> = explode (map ?f ls1 @ map ?f ls2)"
    by (rule explode_drop) (rule assms)
  also have "\<dots> = file_rules g (ls1 @ ls2)"
    by (simp add: file_rules_def logic_frame_anchored [OF False] bind_def)
  finally show ?thesis .
qed

lemma digits3_digit: "digits3 s \<noteq> [] \<Longrightarrow> is_digit (hd (digits3 s))"
  unfolding digits3_def by (metis hd_in_set set_takeWhileD)

lemma match_list_Some: "match_list lead s = Some z \<Longrightarrow> z \<noteq> [] \<and> is_digit (hd z)"
  by (auto simp: match_list_def Let_def digits3_digit split: if_splits)

lemma search_list_Some: "search_list pre lead s = Some z \<Longrightarrow> z \<noteq> [] \<and> is_digit (hd z)"
  by (induction s) (auto split: if_splits option.splits dest: match_list_Some)

lemma line_zeros_Some: "line_zeros g text = Some z \<Longrightarrow> z \<noteq> [] \<and> is_digit (hd z)"
  by (auto simp: line_zeros_def split: option.splits dest: search_list_Some)

text \<open>
  The rules table of a file is made of the rows its lines contribute, in the order of
  the lines.  A line contributes rows only if both patterns match in what follows its
  anchor; every contributed row pairs the line's trigger with one comma-separated piece
  of its list, and the list starts with a digit.  A line on which either pattern does not
  match contributes nothing, and the table is the same without that line.
\<close>

lemma rules_from_matching_lines:
  "(file_rules g ls = Inr rules \<longrightarrow> frows rules = concat (map (line_rules g) ls)) \<and>
   (\<forall>row \<in> set (line_rules g line).
      \<exists>condition zeros z. line_condition g line = Some condition \<and> line_zeros g line = Some zeros \<and>
        zeros \<noteq> [] \<and> is_digit (hd zeros) \<and> z \<in> set (split_on (CHR '','') zeros) \<and>
        row = [(''to_zero'', StrC z), (''cc'', StrC condition)]) \<and>
   (line_condition g line = None \<or> line_zeros g line = None \<longrightarrow>
      line_rules g line = [] \<and> file_rules g (ls1 @ line # ls2) = file_rules g (ls1 @ ls2))"
proof (intro conjI impI ballI)
  assume "file_rules g ls = Inr rules"
  then show "frows rules = concat (map (line_rules g) ls)"
    by (rule file_rules_rows)
next
  fix row assume "row \<in> set (line_rules g line)"
  then show "\<exists>condition zeros z. line_condition g line = Some condition \<and>
        line_zeros g line = Some zeros \<and> zeros \<noteq> [] \<and> is_digit (hd zeros) \<and>
        z \<in> set (split_on (CHR '','') zeros) \<and> row = [(''to_zero'', StrC z), (''cc'', StrC condition)]"
  proof (cases "line_condition g line")
    case None
    with \<open>row \<in> set (line_rules g line)\<close> show ?thesis
      by (simp add: line_rules_def)
  next
    case c: (Some condition)
    show ?thesis
    proof (cases "line_zeros g line")
      case None
      with c \<open>row \<in> set (line_rules g line)\<close> show ?thesis
        by (simp add: line_rules_def)
    next
      case z: (Some zeros)
      from c z \<open>row \<in> set (line_rules g line)\<close> obtain x
        where "x \<in> set (split_on (CHR '','') zeros)"
          and "row = [(''to_zero'', StrC x), (''cc'', StrC condition)]"
        by (auto simp: line_rules_def rule_rows_def)
      with c z line_zeros_Some [OF z] show ?thesis by blast
    qed
  qed
next
  assume "line_condition g line = None \<or> line_zeros g line = None"
  then show "line_rules g line = []"
    by (auto simp: line_rules_def split: option.splits)
next
  assume "line_condition g line = None \<or> line_zeros g line = None"
  then show "file_rules g (ls1 @ line # ls2) = file_rules g (ls1 @ ls2)"
    by (rule file_rules_discard)
qed

section \<open>The extractors on concrete files\<close>

text \<open>
  C10.  \<open>extract_hierachy_rules\<close> on a v12 and a v22 file: the header lines, on which no
  pattern matches, give no rule, and each rule line gives one row per listed CC.  The
  lines whose trigger marker is followed by no digit are kept as well: the trigger pattern
  ends in \<open>[0-9]*\<close>, so it matches with an empty trigger, which is not null, and the rows
  go into the table with an empty \<open>cc\<close>.
\<close>

theorem empty_trigger_kept:
  "extract_hierachy_rules hierarchy_raw [''2010/v12/V12H70H.txt'', ''2017/v22/V22H79H1.txt''] []
     = (None, [(''v12_rules.csv'', v12_rules_written), (''v22_rules.csv'', v22_rules_written)]) \<and>
   grammar_of ''v12'' = Some grammar_v12 \<and>
   line_condition grammar_v12 '' if hcc then do i=8;hcc(i)=0;end;'' = Some [] \<and>
   line_zeros grammar_v12 '' if hcc then do i=8;hcc(i)=0;end;'' = Some ''8'' \<and>
   line_condition grammar_v12 '' %MACRO V12H70H;'' = None"
  by code_simp

text \<open>
  C2.  On the scenario, \<open>generate_hccs\<close> gives the expected matrix when the crosswalk
  names its code column \<open>diag_code\<close>.  The crosswalk \<open>format_crosswaks\<close> writes names that
  column \<open>icd\<close>, and on it the merge of line 39 raises KeyError for \<open>diag_code\<close>.
\<close>

theorem scenario_on_formatted_crosswalk:
  "fst (generate_hccs scenario_fs scenario_df ''v22'') = Inr scenario_out \<and>
   format_crosswaks scenario_raw [] [''2020/v22/F2220.txt''] []
     = (None, [(''2020_v22_icd10.csv'', formatted_crosswalk)]) \<and>
   fcolumns formatted_crosswalk = [''icd'', ''cc'', ''version'', ''year''] \<and>
   fst (generate_hccs formatted_fs scenario_df ''v22'') = Inl (KeyError (StrC ''diag_code''))"
  by code_simp

text \<open>
  C7.  An ICD-9 listing past the cutoff takes no branch of lines 192-220, and line 222
  appends whatever \<open>df_extra\<close> still holds: here the v22 entries of 2015 end up, with the
  year 2015, in the v21 file of 2016.  As the first file of the list the same listing
  raises NameError.
\<close>

theorem stale_supplement:
  "fst (format_crosswaks stale_raw [''2015/v22/F2213L2P.txt'', ''2016/v21/F211690R_ICD9.txt''] [] []) = None \<and>
   map_of (snd (format_crosswaks stale_raw [''2015/v22/F2213L2P.txt'', ''2016/v21/F211690R_ICD9.txt''] [] []))
     ''2016_v21_icd9.csv'' = Some stale_2016 \<and>
   extra_mappings ''v21'' 2016 None = None \<and>
   format_crosswaks stale_raw [''2016/v21/F211690R_ICD9.txt''] [] [] = (Some NameError, [])"
  by code_simp

section \<open>What the join marks\<close>

lemma map_of_tabulate: "map_of (map (\<lambda>c. (c, f c)) cols) k = (if k \<in> set cols then Some (f k) else None)"
  by (induction cols) auto

lemma cell_of_append:
  "cell_of (xs @ ys) k = (case map_of xs k of None \<Rightarrow> cell_of ys k | Some v \<Rightarrow> v)"
  by (simp add: cell_of_def map_add_def split: option.splits)

lemma cell_of_reindex_row:
  "cell_of (reindex_row cols a) k = (if k \<in> set cols then cell_of a k else NaN)"
  by (simp add: reindex_row_def cell_of_def map_of_tabulate)

lemma map_of_reindex_row:
  "map_of (reindex_row cols a) k = (if k \<in> set cols then Some (cell_of a k) else None)"
  by (simp add: reindex_row_def map_of_tabulate)

lemma map_of_filter_keys:
  "map_of (filter (\<lambda>(k, v). P k) row) k = (if P k then map_of row k else None)"
  by (induction row) auto

lemma cell_of_filter_keys:
  "cell_of (filter (\<lambda>(k, v). k \<notin> set names) row) k = (if k \<in> set names then NaN else cell_of row k)"
  by (simp add: cell_of_def map_of_filter_keys)

lemma cell_of_drop:
  "k \<notin> set names \<Longrightarrow> cell_of (filter (\<lambda>(k, v). k \<notin> set names) row) k = cell_of row k"
  by (simp add: cell_of_filter_keys)

lemma cell_of_nulls: "cell_of (map (\<lambda>c. (c, NaN)) cols) k = NaN"
  by (simp add: cell_of_def map_of_tabulate)

lemma merge_left_rows:
  assumes m: "merge_left l r ks = Inr j"
    and clash: "set (fcolumns l) \<inter> set (fcolumns r) \<subseteq> set ks"
  shows "frows j = concat (map (\<lambda>a. case matching_rows r ks a of
             [] \<Rightarrow> [reindex_row (fcolumns l) a @ map (\<lambda>c. (c, NaN)) (filter (\<lambda>c. c \<notin> set ks) (fcolumns r))]
           | bs \<Rightarrow> map (\<lambda>b. reindex_row (fcolumns l) a @ reindex_row (filter (\<lambda>c. c \<notin> set ks) (fcolumns r)) b) bs)
          (frows l))"
proof -
  let ?rcols = "filter (\<lambda>c. c \<notin> set ks) (fcolumns r)"
  have l: "map (\<lambda>c. (if c \<in> set ?rcols then c @ ''_x'' else c, cell_of a c)) (fcolumns l)
           = reindex_row (fcolumns l) a" for a
    unfolding reindex_row_def using clash by (intro map_cong) auto
  have r: "map (\<lambda>c. (if c \<in> set (fcolumns l) then c @ ''_y'' else c, f c)) ?rcols
           = map (\<lambda>c. (c, f c)) ?rcols" for f :: "string \<Rightarrow> cell"
    using clash by (intro map_cong) auto
  from m have "filter (\<lambda>k. k \<notin> set (fcolumns r) \<or> k \<notin> set (fcolumns l)) ks = []"
    by (auto simp: merge_left_def split: list.splits)
  with m have "j = \<lparr>fcolumns = map (\<lambda>c. if c \<in> set ?rcols then c @ ''_x'' else c) (fcolumns l)
                        @ map (\<lambda>c. if c \<in> set (fcolumns l) then c @ ''_y'' else c) ?rcols,
                     frows = concat (map (\<lambda>a. case matching_rows r ks a of
             [] \<Rightarrow> [map (\<lambda>c. (if c \<in> set ?rcols then c @ ''_x'' else c, cell_of a c)) (fcolumns l)
                    @ map (\<lambda>c. (if c \<in> set (fcolumns l) then c @ ''_y'' else c, NaN)) ?rcols]
           | bs \<Rightarrow> map (\<lambda>b. map (\<lambda>c. (if c \<in> set ?rcols then c @ ''_x'' else c, cell_of a c)) (fcolumns l)
                    @ map (\<lambda>c. (if c \<in> set (fcolumns l) then c @ ''_y'' else c, cell_of b c)) ?rcols) bs)
          (frows l))\<rparr>"
    by (simp add: merge_left_def Let_def)
  then have "frows j = concat (map (\<lambda>a. case matching_rows r ks a of
             [] \<Rightarrow> [map (\<lambda>c. (if c \<in> set ?rcols then c @ ''_x'' else c, cell_of a c)) (fcolumns l)
                    @ map (\<lambda>c. (if c \<in> set (fcolumns l) then c @ ''_y'' else c, NaN)) ?rcols]
           | bs \<Rightarrow> map (\<lambda>b. map (\<lambda>c. (if c \<in> set ?rcols then c @ ''_x'' else c, cell_of a c)) (fcolumns l)
                    @ map (\<lambda>c. (if c \<in> set (fcolumns l) then c @ ''_y'' else c, cell_of b c)) ?rcols) bs)
          (frows l))"
    by (simp only: frame.select_convs)
  then show ?thesis
    unfolding l r by (simp only: reindex_row_def)
qed

lemma set_case_matches:
  "set (case ms of [] \<Rightarrow> [n] | bs \<Rightarrow> map f bs) = (if ms = [] then {n} else f ` set ms)"
  by (cases ms) auto

lemma join_ccs_pairs:
  assumes j: "join_ccs df1 df_map = Inr merged"
    and clash: "set (fcolumns df1) \<inter> set (fcolumns df_map) \<subseteq> set join_keys"
    and recip: "''recip_id'' \<in> set (fcolumns df1)"
    and cc: "''cc'' \<in> set (fcolumns df_map)"
  shows "(rid, c) \<in> set (map (\<lambda>row. (cell_of row ''recip_id'', cell_of row ''cc'')) (frows merged))
         \<longleftrightarrow> c \<noteq> NaN \<and> (\<exists>a \<in> set (frows df1). cell_of a ''recip_id'' = rid \<and>
                (\<exists>b \<in> set (matching_rows df_map join_keys a). cell_of b ''cc'' = c))"
proof -
  let ?rcols = "filter (\<lambda>c. c \<notin> set join_keys) (fcolumns df_map)"
  let ?names = "[''claim_date'', ''year'']"
  define dropf :: "frow \<Rightarrow> frow" where "dropf = filter (\<lambda>(k, v). k \<notin> set ?names)"
  define nul where "nul = (\<lambda>a. reindex_row (fcolumns df1) a @ map (\<lambda>c. (c, NaN)) ?rcols)"
  define both where "both = (\<lambda>a b. reindex_row (fcolumns df1) a @ reindex_row ?rcols b)"
  define ms where "ms = matching_rows df_map join_keys"
  from j obtain joined dropped
    where m: "merge_left df1 df_map join_keys = Inr joined"
      and d: "drop_columns ?names joined = Inr dropped"
      and k: "keep_mapped dropped = Inr merged"
    by (auto simp: join_ccs_def bind_Inr_iff)
  have rows: "frows joined = concat (map (\<lambda>a. case ms a of [] \<Rightarrow> [nul a] | bs \<Rightarrow> map (both a) bs) (frows df1))"
    unfolding nul_def both_def ms_def by (rule merge_left_rows [OF m clash])
  from d have drows: "frows dropped = map dropf (frows joined)"
    by (auto simp: drop_columns_def dropf_def split: list.splits)
  from k have mrows: "frows merged = filter (\<lambda>row. cell_of row ''cc'' \<noteq> NaN) (frows dropped)"
    by (auto simp: keep_mapped_def split: if_splits)
  have cc1: "''cc'' \<notin> set (fcolumns df1)"
    using clash cc by (auto simp: join_keys_def)
  have cc2: "''cc'' \<in> set ?rcols"
    using cc by (simp add: join_keys_def)
  have drop_cc: "cell_of (dropf row) ''cc'' = cell_of row ''cc''" for row
    unfolding dropf_def by (rule cell_of_drop) simp
  have drop_recip: "cell_of (dropf row) ''recip_id'' = cell_of row ''recip_id''" for row
    unfolding dropf_def by (rule cell_of_drop) simp
  have null_cc: "cell_of (dropf (nul a)) ''cc'' = NaN" for a
    unfolding drop_cc nul_def using cc1 by (simp add: cell_of_append map_of_reindex_row cell_of_nulls)
  have both_cc: "cell_of (dropf (both a b)) ''cc'' = cell_of b ''cc''" for a b
    unfolding drop_cc both_def using cc1 cc2
    by (simp add: cell_of_append map_of_reindex_row cell_of_reindex_row)
  have both_recip: "cell_of (dropf (both a b)) ''recip_id'' = cell_of a ''recip_id''" for a b
    unfolding drop_recip both_def using recip by (simp add: cell_of_append map_of_reindex_row)
  have in_joined: "row \<in> set (frows joined) \<longleftrightarrow>
      (\<exists>a \<in> set (frows df1). (ms a = [] \<and> row = nul a) \<or> (\<exists>b \<in> set (ms a). row = both a b))" for row
    unfolding rows by (auto simp: set_case_matches split: if_splits)
  have "(rid, c) \<in> set (map (\<lambda>row. (cell_of row ''recip_id'', cell_of row ''cc'')) (frows merged))
      \<longleftrightarrow> (\<exists>row. row \<in> set (frows joined) \<and> cell_of (dropf row) ''cc'' \<noteq> NaN \<and>
             cell_of (dropf row) ''recip_id'' = rid \<and> cell_of (dropf row) ''cc'' = c)"
    unfolding mrows drows by auto
  also have "\<dots> \<longleftrightarrow> c \<noteq> NaN \<and> (\<exists>a \<in> set (frows df1). cell_of a ''recip_id'' = rid \<and>
                (\<exists>b \<in> set (ms a). cell_of b ''cc'' = c))"
  proof
    assume "\<exists>row. row \<in> set (frows joined) \<and> cell_of (dropf row) ''cc'' \<noteq> NaN \<and>
             cell_of (dropf row) ''recip_id'' = rid \<and> cell_of (dropf row) ''cc'' = c"
    then obtain row where r: "row \<in> set (frows joined)" and n: "cell_of (dropf row) ''cc'' \<noteq> NaN"
      and i: "cell_of (dropf row) ''recip_id'' = rid" and v: "cell_of (dropf row) ''cc'' = c"
      by blast
    from r n obtain a b where "a \<in> set (frows df1)" "b \<in> set (ms a)" "row = both a b"
      unfolding in_joined using null_cc by blast
    with n i v show "c \<noteq> NaN \<and> (\<exists>a \<in> set (frows df1). cell_of a ''recip_id'' = rid \<and>
                (\<exists>b \<in> set (ms a). cell_of b ''cc'' = c))"
      using both_cc both_recip by auto
  next
    assume "c \<noteq> NaN \<and> (\<exists>a \<in> set (frows df1). cell_of a ''recip_id'' = rid \<and>
                (\<exists>b \<in> set (ms a). cell_of b ''cc'' = c))"
    then obtain a b where n: "c \<noteq> NaN" and a: "a \<in> set (frows df1)" and i: "cell_of a ''recip_id'' = rid"
      and b: "b \<in> set (ms a)" and v: "cell_of b ''cc'' = c"
      by blast
    from a b have "both a b \<in> set (frows joined)"
      unfolding in_joined by blast
    moreover have "cell_of (dropf (both a b)) ''cc'' \<noteq> NaN"
      using n v by (simp add: both_cc)
    moreover have "cell_of (dropf (both a b)) ''recip_id'' = rid"
      using i by (simp add: both_recip)
    moreover have "cell_of (dropf (both a b)) ''cc'' = c"
      using v by (simp add: both_cc)
    ultimately show "\<exists>row. row \<in> set (frows joined) \<and> cell_of (dropf row) ''cc'' \<noteq> NaN \<and>
             cell_of (dropf row) ''recip_id'' = rid \<and> cell_of (dropf row) ''cc'' = c"
      by blast
  qed
  finally show ?thesis unfolding ms_def .
qed

lemma truth_table_cell:
  assumes "truth_table merged df_list = Inr pre"
  shows "cell_at pre rid c = Some (BoolC True) \<longleftrightarrow>
           rid \<noteq> NaN \<and> c \<in> set (cc_universe df_list) \<and>
           (rid, c) \<in> set (map (\<lambda>row. (cell_of row ''recip_id'', cell_of row ''cc'')) (frows merged))"
proof -
  define pairs where "pairs = map (\<lambda>row. (cell_of row ''recip_id'', cell_of row ''cc'')) (frows merged)"
  define recips where "recips = sort_key cell_key (remdups (filter (\<lambda>r. r \<noteq> NaN) (map fst pairs)))"
  from assms have pre: "mrows pre = map (\<lambda>rid. (rid, map (\<lambda>c. (c, BoolC ((rid, c) \<in> set pairs))) (cc_universe df_list))) recips"
    by (auto simp: truth_table_def Let_def pairs_def recips_def split: if_splits)
  have r: "rid \<in> set recips \<longleftrightarrow> rid \<noteq> NaN \<and> rid \<in> fst ` set pairs"
    by (auto simp: recips_def)
  have "cell_at pre rid c = Some (BoolC True) \<longleftrightarrow>
          rid \<in> set recips \<and> c \<in> set (cc_universe df_list) \<and> (rid, c) \<in> set pairs"
    by (simp add: cell_at_def pre map_of_tabulate)
  also have "\<dots> \<longleftrightarrow> rid \<noteq> NaN \<and> c \<in> set (cc_universe df_list) \<and> (rid, c) \<in> set pairs"
    unfolding r by force
  finally show ?thesis unfolding pairs_def .
qed

lemma remdups_all_equal:
  assumes "\<And>x y. x \<in> set xs \<Longrightarrow> y \<in> set xs \<Longrightarrow> x = y"
  shows "length (remdups xs) \<le> 1"
proof (cases xs)
  case Nil
  then show ?thesis by simp
next
  case (Cons x ys)
  with assms have "set xs = {x}" by auto
  then have "card (set xs) = 1" by simp
  then show ?thesis by (simp add: length_remdups_card_conv)
qed

text \<open>
  C8, amended.  The Resolver has no check on the crosswalk's keys.  Let the call reach
  the matrix before the hierarchies, with the caller's frame (year column added) and the
  unioned crosswalk sharing no column but the join keys, the frame holding \<open>recip_id\<close> and
  the crosswalk \<open>cc\<close>.  Then a cell is \<open>True\<close> exactly when the CC is in the labels table and
  some record of the recipient agrees on code, year and coding system with some crosswalk
  row that maps to this CC: every cc_id of a key is marked, none is picked, nothing is
  raised.  If the crosswalk maps rows that agree on the key to the same cc_id, the rows
  matching one record carry at most one cc_id.
\<close>

theorem crosswalk_lookup:
  assumes "presence_matrix fs df version = Inr pre"
    and "load_tables fs version = Inr (df_map, df_hier, df_list)"
    and "add_year df = Inr df1"
    and "set (fcolumns df1) \<inter> set (fcolumns df_map) \<subseteq> set join_keys"
    and "''recip_id'' \<in> set (fcolumns df1)"
    and "''cc'' \<in> set (fcolumns df_map)"
  shows "(cell_at pre rid c = Some (BoolC True) \<longleftrightarrow>
            rid \<noteq> NaN \<and> c \<noteq> NaN \<and> c \<in> set (cc_universe df_list) \<and>
            (\<exists>a \<in> set (frows df1). cell_of a ''recip_id'' = rid \<and>
               (\<exists>b \<in> set (matching_rows df_map join_keys a). cell_of b ''cc'' = c))) \<and>
         (list_all (\<lambda>b. list_all (\<lambda>b'. list_all (\<lambda>k. cell_of b k = cell_of b' k) join_keys
                \<longrightarrow> cell_of b ''cc'' = cell_of b' ''cc'') (frows df_map)) (frows df_map) \<longrightarrow>
            length (remdups (map (\<lambda>b. cell_of b ''cc'') (matching_rows df_map join_keys a))) \<le> 1)"
proof
  from assms(1-3) obtain merged
    where j: "join_ccs df1 df_map = Inr merged" and t: "truth_table merged df_list = Inr pre"
    by (auto simp: presence_matrix_def bind_Inr_iff)
  define found where "found \<longleftrightarrow> (\<exists>a \<in> set (frows df1). cell_of a ''recip_id'' = rid \<and>
               (\<exists>b \<in> set (matching_rows df_map join_keys a). cell_of b ''cc'' = c))"
  have 1: "cell_at pre rid c = Some (BoolC True) \<longleftrightarrow>
           rid \<noteq> NaN \<and> c \<in> set (cc_universe df_list) \<and>
           (rid, c) \<in> set (map (\<lambda>row. (cell_of row ''recip_id'', cell_of row ''cc'')) (frows merged))"
    by (rule truth_table_cell [OF t])
  have 2: "(rid, c) \<in> set (map (\<lambda>row. (cell_of row ''recip_id'', cell_of row ''cc'')) (frows merged))
           \<longleftrightarrow> c \<noteq> NaN \<and> found"
    unfolding found_def by (rule join_ccs_pairs [OF j assms(4-6)])
  have "cell_at pre rid c = Some (BoolC True) \<longleftrightarrow>
            rid \<noteq> NaN \<and> c \<noteq> NaN \<and> c \<in> set (cc_universe df_list) \<and> found"
    unfolding 1 2 by blast
  then show "cell_at pre rid c = Some (BoolC True) \<longleftrightarrow>
            rid \<noteq> NaN \<and> c \<noteq> NaN \<and> c \<in> set (cc_universe df_list) \<and>
            (\<exists>a \<in> set (frows df1). cell_of a ''recip_id'' = rid \<and>
               (\<exists>b \<in> set (matching_rows df_map join_keys a). cell_of b ''cc'' = c))"
    unfolding found_def .
next
  show "list_all (\<lambda>b. list_all (\<lambda>b'. list_all (\<lambda>k. cell_of b k = cell_of b' k) join_keys
                \<longrightarrow> cell_of b ''cc'' = cell_of b' ''cc'') (frows df_map)) (frows df_map) \<longrightarrow>
            length (remdups (map (\<lambda>b. cell_of b ''cc'') (matching_rows df_map join_keys a))) \<le> 1"
  proof
    assume inv: "list_all (\<lambda>b. list_all (\<lambda>b'. list_all (\<lambda>k. cell_of b k = cell_of b' k) join_keys
                \<longrightarrow> cell_of b ''cc'' = cell_of b' ''cc'') (frows df_map)) (frows df_map)"
    have "x = y" if "x \<in> set (map (\<lambda>b. cell_of b ''cc'') (matching_rows df_map join_keys a))"
      and "y \<in> set (map (\<lambda>b. cell_of b ''cc'') (matching_rows df_map join_keys a))" for x y
    proof -
      from that obtain b b' where b: "b \<in> set (frows df_map)" "b' \<in> set (frows df_map)"
        and m: "list_all (\<lambda>k. cell_of a k = cell_of b k) join_keys"
          "list_all (\<lambda>k. cell_of a k = cell_of b' k) join_keys"
        and xy: "x = cell_of b ''cc''" "y = cell_of b' ''cc''"
        unfolding matching_rows_def by auto
      have "cell_of b k = cell_of b' k" if "k \<in> set join_keys" for k
        using m that unfolding list_all_iff by metis
      then have e: "list_all (\<lambda>k. cell_of b k = cell_of b' k) join_keys"
        unfolding list_all_iff by blast
      from inv b have "list_all (\<lambda>k. cell_of b k = cell_of b' k) join_keys
                \<longrightarrow> cell_of b ''cc'' = cell_of b' ''cc''"
        unfolding list_all_iff [of _ "frows df_map"] by blast
      with e xy show ?thesis by blast
    qed
    then show "length (remdups (map (\<lambda>b. cell_of b ''cc'') (matching_rows df_map join_keys a))) \<le> 1"
      by (rule remdups_all_equal)
  qed
qed

theorem crosswalk_lookup_witness:
  "presence_matrix conflict_fs scenario_df ''v22'' = Inr conflict_out \<and>
   load_tables conflict_fs ''v22'' = Inr (conflict_crosswalk, empty_rules, scenario_labels) \<and>
   add_year scenario_df = Inr scenario_with_year \<and>
   set (fcolumns scenario_with_year) \<inter> set (fcolumns conflict_crosswalk) \<subseteq> set join_keys \<and>
   ''recip_id'' \<in> set (fcolumns scenario_with_year) \<and>
   ''cc'' \<in> set (fcolumns conflict_crosswalk) \<and>
   cell_at conflict_out (StrC ''R2'') (IntC 2) = Some (BoolC True) \<and>
   cell_at conflict_out (StrC ''R2'') (IntC 3) \<noteq> Some (BoolC True) \<and>
   presence_matrix scenario_fs scenario_df ''v22'' = Inr scenario_pre \<and>
   load_tables scenario_fs ''v22'' = Inr (scenario_crosswalk, scenario_rules, scenario_labels) \<and>
   set (fcolumns scenario_with_year) \<inter> set (fcolumns scenario_crosswalk) \<subseteq> set join_keys \<and>
   ''cc'' \<in> set (fcolumns scenario_crosswalk) \<and>
   list_all (\<lambda>b. list_all (\<lambda>b'. list_all (\<lambda>k. cell_of b k = cell_of b' k) join_keys
        \<longrightarrow> cell_of b ''cc'' = cell_of b' ''cc'') (frows scenario_crosswalk)) (frows scenario_crosswalk) \<and>
   length (remdups (map (\<lambda>b. cell_of b ''cc'')
     (matching_rows scenario_crosswalk join_keys (hd (frows scenario_with_year))))) \<le> 1"
proof -
  have p: "presence_matrix conflict_fs scenario_df ''v22'' = Inr conflict_out"
    by code_simp
  have l: "load_tables conflict_fs ''v22'' = Inr (conflict_crosswalk, empty_rules, scenario_labels)"
    by code_simp
  have y: "add_year scenario_df = Inr scenario_with_year"
    by code_simp
  have c: "set (fcolumns scenario_with_year) \<inter> set (fcolumns conflict_crosswalk) \<subseteq> set join_keys"
    by code_simp
  have r: "''recip_id'' \<in> set (fcolumns scenario_with_year)"
    by code_simp
  have k: "''cc'' \<in> set (fcolumns conflict_crosswalk)"
    by code_simp
  note t = crosswalk_lookup [OF p l y c r k, THEN conjunct1]
  have "\<exists>a \<in> set (frows scenario_with_year). cell_of a ''recip_id'' = StrC ''R2'' \<and>
          (\<exists>b \<in> set (matching_rows conflict_crosswalk join_keys a). cell_of b ''cc'' = IntC 2)"
    by code_simp
  moreover have "IntC 2 \<in> set (cc_universe scenario_labels)"
    by code_simp
  ultimately have 1: "cell_at conflict_out (StrC ''R2'') (IntC 2) = Some (BoolC True)"
    unfolding t [of "StrC ''R2''" "IntC 2"] by simp
  have "\<not> (\<exists>a \<in> set (frows scenario_with_year). cell_of a ''recip_id'' = StrC ''R2'' \<and>
          (\<exists>b \<in> set (matching_rows conflict_crosswalk join_keys a). cell_of b ''cc'' = IntC 3))"
    by code_simp
  then have 2: "cell_at conflict_out (StrC ''R2'') (IntC 3) \<noteq> Some (BoolC True)"
    unfolding t [of "StrC ''R2''" "IntC 3"] by simp
  have p': "presence_matrix scenario_fs scenario_df ''v22'' = Inr scenario_pre"
    by code_simp
  have l': "load_tables scenario_fs ''v22'' = Inr (scenario_crosswalk, scenario_rules, scenario_labels)"
    by code_simp
  have c': "set (fcolumns scenario_with_year) \<inter> set (fcolumns scenario_crosswalk) \<subseteq> set join_keys"
    by code_simp
  have k': "''cc'' \<in> set (fcolumns scenario_crosswalk)"
    by code_simp
  have i: "list_all (\<lambda>b. list_all (\<lambda>b'. list_all (\<lambda>k. cell_of b k = cell_of b' k) join_keys
        \<longrightarrow> cell_of b ''cc'' = cell_of b' ''cc'') (frows scenario_crosswalk)) (frows scenario_crosswalk)"
    by code_simp
  from crosswalk_lookup [OF p' l' y c' r k', THEN conjunct2, of "hd (frows scenario_with_year)"] i
  have 3: "length (remdups (map (\<lambda>b. cell_of b ''cc'')
     (matching_rows scenario_crosswalk join_keys (hd (frows scenario_with_year))))) \<le> 1"
    by blast
  from p l y c r k 1 2 p' l' c' k' i 3 show ?thesis by blast
qed

theorem crosswalk_lookup_counterexample:
  "map (\<lambda>b. (cell_of b ''diag_code'', cell_of b ''year'', cell_of b ''version'', cell_of b ''cc''))
     (frows conflict_crosswalk)
     = [(StrC ''E11.9'', IntC 2020, IntC 10, IntC 1), (StrC ''E11.9'', IntC 2020, IntC 10, IntC 2)] \<and>
   load_tables conflict_fs ''v22'' = Inr (conflict_crosswalk, empty_rules, scenario_labels) \<and>
   fst (generate_hccs conflict_fs scenario_df ''v22'') = Inr conflict_out \<and>
   cell_at conflict_out (StrC ''R2'') (IntC 1) = Some (BoolC True) \<and>
   cell_at conflict_out (StrC ''R2'') (IntC 2) = Some (BoolC True)"
  by code_simp

end
